theory Spec2Isabelle
  imports Main "HOL-Library.Sublist"
begin

section \<open>JavaScript strings\<close>

text \<open>
  A JavaScript string is modelled as a \<^typ>\<open>string\<close>: the list of its code units, each below
  256 (the ASCII and Latin-1 range). URLs and attribute values with code units beyond that
  range are outside the model.
\<close>

text \<open>\<^verbatim>\<open>String.prototype.toLowerCase\<close>, one code unit at a time: A-Z and the Latin-1 capitals
  (0xC0-0xDE without the multiplication sign 0xD7) move up by 32.\<close>

definition js_lower_char :: "char \<Rightarrow> char" where
  "js_lower_char c =
     (let n = (of_char c :: nat)
      in if (65 \<le> n \<and> n \<le> 90) \<or> (192 \<le> n \<and> n \<le> 222 \<and> n \<noteq> 215)
         then char_of (n + 32) else c)"

definition toLowerCase :: "string \<Rightarrow> string" where
  "toLowerCase s = map js_lower_char s"

text \<open>\<^verbatim>\<open>s.split(d)\<close> for a one-character separator: never the empty list.\<close>

fun split_on :: "char \<Rightarrow> string \<Rightarrow> string list" where
  "split_on d [] = [[]]"
| "split_on d (c # cs) =
     (if c = d then [] # split_on d cs
      else (case split_on d cs of
              [] \<Rightarrow> [[c]]
            | x # xs \<Rightarrow> (c # x) # xs))"

text \<open>\<^verbatim>\<open>s.indexOf(pat)\<close>: the first index at which \<open>pat\<close> occurs, or -1.\<close>

fun index_from :: "string \<Rightarrow> string \<Rightarrow> nat \<Rightarrow> int" where
  "index_from pat [] i = (if pat = [] then int i else -1)"
| "index_from pat (c # cs) i =
     (if prefix pat (c # cs) then int i else index_from pat cs (Suc i))"

definition indexOf :: "string \<Rightarrow> string \<Rightarrow> int" where
  "indexOf s pat = index_from pat s 0"

section \<open>Source classification\<close>

text \<open>
  The regular expression \<^verbatim>\<open>/\.m3u8(\?|#|$)/i\<close> tried at the start of a string. The flag
  \<^verbatim>\<open>i\<close> lets the letters \<open>m\<close> and \<open>u\<close> match in either case; without the flag \<^verbatim>\<open>m\<close>,
  \<^verbatim>\<open>$\<close> matches at the end of the input only.
\<close>

fun m3u8_here :: "string \<Rightarrow> bool" where
  "m3u8_here (a # b # c # d # e # rest) =
     (a = CHR ''.'' \<and> (b = CHR ''m'' \<or> b = CHR ''M'') \<and> c = CHR ''3''
      \<and> (d = CHR ''u'' \<or> d = CHR ''U'') \<and> e = CHR ''8''
      \<and> (case rest of [] \<Rightarrow> True | r # _ \<Rightarrow> r = CHR ''?'' \<or> r = CHR ''#''))"
| "m3u8_here _ = False"

text \<open>\<^verbatim>\<open>RegExp.prototype.test\<close>: the expression is tried at every start index.\<close>

fun m3u8_test :: "string \<Rightarrow> bool" where
  "m3u8_test [] = False"
| "m3u8_test (c # cs) = (m3u8_here (c # cs) \<or> m3u8_test cs)"

definition hls_mime :: string where
  "hls_mime = ''application/vnd.apple.mpegurl''"

text \<open>
  \<^verbatim>\<open>
  function isHlsSource(src){
    if (!src) return false;
    return /\.m3u8(\?|#|$)/i.test(src) || src.indexOf('application/vnd.apple.mpegurl') !== -1;
  }
  \<close>
\<close>

definition isHlsSource :: "string \<Rightarrow> bool" where
  "isHlsSource src =
     (if src = [] then False
      else m3u8_test src \<or> indexOf src hls_mime \<noteq> -1)"

text \<open>
  \<^verbatim>\<open>
  function detectMimeTypeFromUrl(url){
    if (!url) return '';
    const ext = (url.split('?')[0].split('.').pop() || '').toLowerCase();
    switch(ext){ case 'mp4': return 'video/mp4'; case 'webm': return 'video/webm';
                 case 'ogg': return 'video/ogg'; case 'mov': return 'video/quicktime';
                 default: return ''; }
  }
  \<close>
\<close>

definition detectMimeTypeFromUrl :: "string \<Rightarrow> string" where
  "detectMimeTypeFromUrl url =
     (if url = [] then ''''
      else
        let ext = toLowerCase (last (split_on (CHR ''.'') (hd (split_on (CHR ''?'') url))))
        in if ext = ''mp4'' then ''video/mp4''
           else if ext = ''webm'' then ''video/webm''
           else if ext = ''ogg'' then ''video/ogg''
           else if ext = ''mov'' then ''video/quicktime''
           else '''')"


section \<open>Values, numbers and the quality-level hint\<close>

datatype exn = Exn string

text \<open>
  A number is NaN, an infinity or an integer-valued double, modelled by its integer value:
  \<open>Num n\<close> stands for a number only when \<open>n\<close> is a double (an integer of magnitude below
  \<open>2^53\<close>, or \<open>m * 2^e\<close> with \<open>m < 2^53\<close>, below \<open>2^1024\<close>). Both zeros are \<open>Num 0\<close>. The
  script obtains its numbers from \<^verbatim>\<open>parseInt\<close>, so fractions do not occur. A thrown value is
  an \<open>exn\<close>.
\<close>

datatype jsnum = NaN | Num int | Infinity | MinusInfinity

text \<open>The third argument of \<^verbatim>\<open>attachHls\<close>. The function is private to the module and its
  callers pass \<^verbatim>\<open>null\<close> or a result of \<^verbatim>\<open>parseInt\<close>; \<^verbatim>\<open>undefined\<close> is an omitted argument.\<close>

datatype hint = Undefined | Null | Number jsnum

text \<open>An option value as a caller may pass it, up to truthiness.\<close>

datatype jsval = VUndefined | VNull | VBool bool | VNumber jsnum | VString string | VObject

fun truthy :: "jsval \<Rightarrow> bool" where
  "truthy VUndefined = False"
| "truthy VNull = False"
| "truthy (VBool b) = b"
| "truthy (VNumber NaN) = False"
| "truthy (VNumber (Num n)) = (n \<noteq> 0)"
| "truthy (VNumber Infinity) = True"
| "truthy (VNumber MinusInfinity) = True"
| "truthy (VString s) = (s \<noteq> [])"
| "truthy VObject = True"

text \<open>\<^verbatim>\<open>a || b\<close> where \<open>a\<close> is a string, \<^verbatim>\<open>null\<close> or \<^verbatim>\<open>undefined\<close>.\<close>

definition js_or :: "string option \<Rightarrow> string \<Rightarrow> string" where
  "js_or a b = (case a of None \<Rightarrow> b | Some s \<Rightarrow> if s \<noteq> [] then s else b)"

definition is_space :: "char \<Rightarrow> bool" where
  "is_space c = (c \<in> {CHR 0x09, CHR 0x0A, CHR 0x0B, CHR 0x0C, CHR 0x0D, CHR 0x20, CHR 0xA0})"

definition is_digit :: "char \<Rightarrow> bool" where
  "is_digit c = (48 \<le> (of_char c :: nat) \<and> (of_char c :: nat) \<le> 57)"

definition digit_val :: "char \<Rightarrow> nat" where
  "digit_val c = of_char c - 48"

fun digits_value :: "nat \<Rightarrow> string \<Rightarrow> nat" where
  "digits_value acc [] = acc"
| "digits_value acc (c # cs) = digits_value (acc * 10 + digit_val c) cs"

text \<open>The number of low bits that a natural number has beyond the 53 bits of a double's
  significand.\<close>

function low_bits :: "nat \<Rightarrow> nat" where
  "low_bits n = (if n < 2 ^ 53 then 0 else Suc (low_bits (n div 2)))"
  by pat_completeness auto
termination
  by (relation "measure (\<lambda>n. n)") auto

declare low_bits.simps [simp del]

text \<open>The double nearest to a natural number, a tie going to the even significand; \<open>None\<close>
  when the result is beyond the largest double, which gives an infinity.\<close>

definition round_double :: "nat \<Rightarrow> nat option" where
  "round_double n =
     (let e = low_bits n;
          q = n div 2 ^ e;
          r = n mod 2 ^ e;
          m = (if 2 ^ e < 2 * r \<or> (2 * r = 2 ^ e \<and> odd q) then q + 1 else q)
      in if 2 ^ 1024 \<le> m * 2 ^ e then None else Some (m * 2 ^ e))"

text \<open>\<^verbatim>\<open>parseInt(s, 10)\<close> on a string: leading white space, an optional sign, then the longest
  run of decimal digits; NaN when there is none. The result is the double nearest to the
  integer that the digits denote. (Beyond twenty significant digits the standard lets an
  implementation read the further digits as zeros; the engines read them all.)\<close>

definition parseInt10 :: "string \<Rightarrow> jsnum" where
  "parseInt10 s =
     (let t = dropWhile is_space s;
          neg = (t \<noteq> [] \<and> hd t = CHR ''-'');
          u = (if t \<noteq> [] \<and> (hd t = CHR ''-'' \<or> hd t = CHR ''+'') then tl t else t);
          z = takeWhile is_digit u
      in if z = [] then NaN
         else (case round_double (digits_value 0 z) of
                 None \<Rightarrow> if neg then MinusInfinity else Infinity
               | Some d \<Rightarrow> Num ((if neg then - 1 else 1) * int d)))"

definition digit_char :: "nat \<Rightarrow> char" where
  "digit_char d = char_of (48 + d)"

function nat_digits :: "nat \<Rightarrow> string" where
  "nat_digits n = (if n < 10 then [digit_char n] else nat_digits (n div 10) @ [digit_char (n mod 10)])"
  by pat_completeness auto
termination
  by (relation "measure (\<lambda>n. n)") auto

declare nat_digits.simps [simp del]

text \<open>
  \<^verbatim>\<open>Number::toString\<close> of a positive integer-valued double \<open>x\<close> looks for integers \<open>s\<close>, \<open>k\<close>
  and \<open>n\<close> with \<open>10^(k-1) \<le> s < 10^k\<close> such that \<open>s * 10^(n-k)\<close> is a decimal that the
  double \<open>x\<close> is nearest to, with \<open>k\<close> as small as possible. Below are the pairs \<open>(s, n)\<close> for
  a given \<open>k\<close>: \<open>n\<close> is the number of digits of \<open>x\<close> or one more, and \<open>s\<close> is next to
  \<open>x / 10^(n-k)\<close>.
\<close>

definition digits_candidates :: "nat \<Rightarrow> nat \<Rightarrow> (nat \<times> nat) list" where
  "digits_candidates x k =
     [(s, n). n \<leftarrow> [length (nat_digits x), Suc (length (nat_digits x))],
              s \<leftarrow> [x div 10 ^ (n - k), Suc (x div 10 ^ (n - k))],
              k \<le> n \<and> 10 ^ (k - 1) \<le> s \<and> s < 10 ^ k
              \<and> round_double (s * 10 ^ (n - k)) = Some x]"

definition decimal_distance :: "nat \<Rightarrow> nat \<Rightarrow> nat \<times> nat \<Rightarrow> nat" where
  "decimal_distance x k c =
     (let v = fst c * 10 ^ (snd c - k) in if v < x then x - v else v - x)"

text \<open>Among several decimals of the same length the one nearest to \<open>x\<close> is printed, an even
  \<open>s\<close> winning a tie.\<close>

fun closest :: "nat \<Rightarrow> nat \<Rightarrow> (nat \<times> nat) list \<Rightarrow> (nat \<times> nat) option" where
  "closest x k [] = None"
| "closest x k (c # cs) =
     (case closest x k cs of
        None \<Rightarrow> Some c
      | Some d \<Rightarrow>
          if decimal_distance x k c < decimal_distance x k d
             \<or> (decimal_distance x k c = decimal_distance x k d \<and> even (fst c))
          then Some c else Some d)"

text \<open>Seventeen digits identify every double, so the search ends there.\<close>

definition shortest_digits :: "nat \<Rightarrow> (nat \<times> nat) option" where
  "shortest_digits x =
     (case find (\<lambda>k. digits_candidates x k \<noteq> []) [1..<18] of
        None \<Rightarrow> None
      | Some k \<Rightarrow> closest x k (digits_candidates x k))"

text \<open>The digits of \<open>s\<close> are followed by zeros up to \<open>n\<close> digits when \<open>n \<le> 21\<close>; from \<open>n = 22\<close>
  on, that is from \<open>10^21\<close>, the number is printed with an exponent. (For a double the search
  finds a decimal; the case \<open>None\<close> is there for the other integers, which are not
  numbers.)\<close>

definition nat_ToString :: "nat \<Rightarrow> string" where
  "nat_ToString x =
     (if x = 0 then ''0''
      else (case shortest_digits x of
              None \<Rightarrow> nat_digits x
            | Some (s, n) \<Rightarrow>
                let ds = nat_digits s; k = length ds
                in if n \<le> 21 then ds @ replicate (n - k) (CHR ''0'')
                   else hd ds # (if k = 1 then [] else CHR ''.'' # tl ds)
                          @ ''e+'' @ nat_digits (n - 1)))"

text \<open>\<^verbatim>\<open>ToString\<close> of a number, as \<^verbatim>\<open>parseInt\<close> applies it to a non-string argument.\<close>

fun num_ToString :: "jsnum \<Rightarrow> string" where
  "num_ToString NaN = ''NaN''"
| "num_ToString Infinity = ''Infinity''"
| "num_ToString MinusInfinity = ''-Infinity''"
| "num_ToString (Num n) =
     (if n < 0 then CHR ''-'' # nat_ToString (nat (- n)) else nat_ToString (nat n))"

text \<open>\<^verbatim>\<open>parseInt(startLevel, 10)\<close> on the third argument of \<^verbatim>\<open>attachHls\<close>: the argument is
  turned into a string, and the string is parsed.\<close>

fun parseInt_hint :: "hint \<Rightarrow> jsnum" where
  "parseInt_hint (Number x) = parseInt10 (num_ToString x)"
| "parseInt_hint Undefined = parseInt10 ''undefined''"
| "parseInt_hint Null = parseInt10 ''null''"

section \<open>The document\<close>

record source_el =
  src_attr :: string
  type_attr :: "string option"

datatype vnode = SourceEl source_el | OtherEl string

datatype canPlay = NoCanPlayType | CanPlayThrows exn | CanPlayAnswers string

text \<open>A video element: its attributes and children, and how its \<^verbatim>\<open>canPlayType\<close> method and
  its \<^verbatim>\<open>src\<close> setter behave when called.\<close>

record video_el =
  v_attributes :: "(string \<times> string) list"
  v_preload :: string
  v_src :: "string option"
  v_children :: "vnode list"
  v_canPlayType :: canPlay
  v_src_setter :: "exn option"

text \<open>The overlay. \<open>o_backgroundImage\<close> is the text that the script assigns to
  \<^verbatim>\<open>overlay.style.backgroundImage\<close>, if it assigns one; what the style then holds is decided
  by the CSS parser of the browser (it ignores a text that is not a value of the property,
  as a poster URL with a double quote in it can make it), which the model does not follow.\<close>

record overlay_el =
  o_className :: string
  o_backgroundImage :: "string option"
  o_children :: "string list"

text \<open>One call of \<^verbatim>\<open>initOne\<close> that gets past its guard creates a player: the wrapper with
  its video and overlay, and the variables the click handler and the load callbacks close
  over. \<open>p_overlay_attached\<close> says whether the overlay is a child of the wrapper.\<close>

record player =
  p_src :: string
  p_startLevel :: hint
  p_hlsCdn :: string
  p_video :: video_el
  p_overlay :: overlay_el
  p_overlay_attached :: bool

text \<open>The children of a placeholder: an element with a class and a text, the head built by
  \<^verbatim>\<open>initOne\<close>, or the wrapper of a player. The head is recorded by the class of each element
  that the script writes into its \<^verbatim>\<open>innerHTML\<close> and the text put between its tags. That text
  is the content of the element when it is free of markup (no \<^verbatim>\<open><\<close> and no \<^verbatim>\<open>&\<close>); a title
  or description with markup in it is parsed by the browser into elements of its own,
  which the model does not follow.\<close>

datatype cnode = Elem string string | Head "(string \<times> string) list" | Wrapper nat

record card =
  c_classes :: "string list"
  c_attrs :: "(string \<times> string) list"
  c_children :: "cnode list"

text \<open>The decoder library \<^verbatim>\<open>window.Hls\<close>, by what each operation the script uses does:
  return, or throw.\<close>

record hls_lib =
  isSupported :: "exn + bool"
  construct :: "exn option"
  set_startLevel :: "jsnum \<Rightarrow> exn option"
  set_autoLevelEnabled :: "exn option"
  loadSource :: "string \<Rightarrow> exn option"
  attachMedia :: "exn option"

datatype decoder_op = SetStartLevel jsnum | SetAutoLevelEnabled bool | LoadSource string | AttachMedia nat

text \<open>The continuations handed to \<^verbatim>\<open>loadScript\<close>: the one of the eager path and the one of
  the click handler, each with the player it closes over.\<close>

datatype callback = EagerLoaded nat | ClickLoaded nat

record script_el =
  s_src :: string
  s_callback :: callback
  s_fired :: bool

datatype logmsg = Warn string | Error string exn

text \<open>
  The trace records the order in which the statements of interest execute, each with the
  player it concerns: \<open>Built\<close> when \<^verbatim>\<open>initOne\<close> has created the wrapper, the video and the
  overlay (lines 97-144 of the script); \<open>AttachHlsCall\<close> and \<open>AttachDirectCall\<close> on entry to
  \<^verbatim>\<open>attachHls\<close> and \<^verbatim>\<open>attachDirectFile\<close>; \<open>NativeSrcSet\<close> at the assignment
  \<^verbatim>\<open>video.src = src\<close> of a load callback; \<open>OverlayRemoved\<close> at \<^verbatim>\<open>overlay.remove()\<close>;
  \<open>Injected\<close> when \<^verbatim>\<open>initOne\<close> has replaced the content of the card (lines 175-181);
  \<open>ScriptRequested\<close> in \<^verbatim>\<open>loadScript\<close>; \<open>PlayCalled\<close> at \<^verbatim>\<open>video.play()\<close>.
\<close>

datatype event =
    Built nat
  | AttachHlsCall nat
  | AttachDirectCall nat
  | NativeSrcSet nat
  | OverlayRemoved nat
  | Injected nat
  | ScriptRequested string
  | PlayCalled nat

text \<open>
  The state of the page: \<^verbatim>\<open>window.Hls\<close> (\<open>None\<close> when undefined), what \<^verbatim>\<open>canPlayType\<close> of a
  video element created by the browser does, the placeholders of the document, the
  players created so far (a player is referred to by its index), the decoders created so
  far with the operations performed on each, the script elements appended to
  \<^verbatim>\<open>document.head\<close>, the console, and the trace.
\<close>

record world =
  w_Hls :: "hls_lib option"
  w_native :: canPlay
  w_cards :: "card list"
  w_players :: "player list"
  w_decoders :: "decoder_op list list"
  w_head :: "script_el list"
  w_console :: "logmsg list"
  w_trace :: "event list"

text \<open>A function of the script returns normally or throws; the state reached is kept either
  way.\<close>

type_synonym completion = "exn option \<times> world"

definition andThen :: "completion \<Rightarrow> (world \<Rightarrow> completion) \<Rightarrow> completion" where
  "andThen r f = (case r of (Some e, w) \<Rightarrow> (Some e, w) | (None, w) \<Rightarrow> f w)"

definition log_event :: "event \<Rightarrow> world \<Rightarrow> world" where
  "log_event e w = w\<lparr>w_trace := w_trace w @ [e]\<rparr>"

definition console_warn :: "string \<Rightarrow> world \<Rightarrow> world" where
  "console_warn m w = w\<lparr>w_console := w_console w @ [Warn m]\<rparr>"

definition console_error :: "string \<Rightarrow> exn \<Rightarrow> world \<Rightarrow> world" where
  "console_error m e w = w\<lparr>w_console := w_console w @ [Error m e]\<rparr>"

definition update_player :: "nat \<Rightarrow> (player \<Rightarrow> player) \<Rightarrow> world \<Rightarrow> world" where
  "update_player pid f w = w\<lparr>w_players := (w_players w)[pid := f (w_players w ! pid)]\<rparr>"

definition update_video :: "nat \<Rightarrow> (video_el \<Rightarrow> video_el) \<Rightarrow> world \<Rightarrow> world" where
  "update_video pid f w = update_player pid (\<lambda>p. p\<lparr>p_video := f (p_video p)\<rparr>) w"

definition video_of :: "world \<Rightarrow> nat \<Rightarrow> video_el" where
  "video_of w pid = p_video (w_players w ! pid)"


section \<open>The functions of the script\<close>

text \<open>
  \<^verbatim>\<open>
  function loadScript(src, cb){
    const s = document.createElement('script');
    s.src = src; s.async = true;
    s.onload = () => cb && cb(null);
    s.onerror = () => cb && cb(new Error("Failed load " + src));
    document.head.appendChild(s);
  }
  \<close>
  The callback runs later, when the browser reports the outcome of the load.
\<close>

definition loadScript :: "string \<Rightarrow> callback \<Rightarrow> world \<Rightarrow> world" where
  "loadScript src cb w =
     log_event (ScriptRequested src)
       (w\<lparr>w_head := w_head w @ [\<lparr>s_src = src, s_callback = cb, s_fired = False\<rparr>]\<rparr>)"

text \<open>\<^verbatim>\<open>videoEl.src = src\<close>\<close>

definition assign_src :: "nat \<Rightarrow> string \<Rightarrow> world \<Rightarrow> completion" where
  "assign_src pid src w =
     (case v_src_setter (video_of w pid) of
        Some e \<Rightarrow> (Some e, w)
      | None \<Rightarrow> (None, update_video pid (\<lambda>v. v\<lparr>v_src := Some src\<rparr>) w))"

text \<open>The operations on the decoder instance created last.\<close>

definition decoder_op :: "decoder_op \<Rightarrow> world \<Rightarrow> world" where
  "decoder_op x w =
     w\<lparr>w_decoders := (w_decoders w)[length (w_decoders w) - 1 := last (w_decoders w) @ [x]]\<rparr>"

definition new_Hls :: "hls_lib \<Rightarrow> world \<Rightarrow> completion" where
  "new_Hls lib w =
     (case construct lib of
        Some e \<Rightarrow> (Some e, w)
      | None \<Rightarrow> (None, w\<lparr>w_decoders := w_decoders w @ [[]]\<rparr>))"

definition hls_call :: "exn option \<Rightarrow> decoder_op \<Rightarrow> world \<Rightarrow> completion" where
  "hls_call outcome x w =
     (case outcome of Some e \<Rightarrow> (Some e, w) | None \<Rightarrow> (None, decoder_op x w))"

text \<open>\<^verbatim>\<open>typeof startLevel !== 'undefined' && startLevel !== null && !Number.isNaN(startLevel)\<close>\<close>

definition hint_supplied :: "hint \<Rightarrow> bool" where
  "hint_supplied startLevel =
     (startLevel \<noteq> Undefined \<and> startLevel \<noteq> Null \<and> startLevel \<noteq> Number NaN)"

text \<open>
  \<^verbatim>\<open>
  function attachHls(videoEl, src, startLevel){
    try {
      if (window.Hls && window.Hls.isSupported()) {
        const hls = new window.Hls();
        if (typeof startLevel !== 'undefined' && startLevel !== null && !Number.isNaN(startLevel)) {
          hls.startLevel = parseInt(startLevel, 10);
          hls.autoLevelEnabled = false;
        }
        hls.loadSource(src);
        hls.attachMedia(videoEl);
      } else if (videoEl.canPlayType && videoEl.canPlayType('application/vnd.apple.mpegurl')) {
        videoEl.src = src;
      } else {
        console.warn("No HLS support in this browser.");
      }
    } catch (err){
      console.error("vd-card attachHls error:", err);
    }
  }
  \<close>
  \<open>attachHls_native\<close> is the \<^verbatim>\<open>else if\<close> and \<^verbatim>\<open>else\<close> branches, \<open>attachHls_try\<close> the body of
  the \<^verbatim>\<open>try\<close>.
\<close>

definition attachHls_native :: "nat \<Rightarrow> string \<Rightarrow> world \<Rightarrow> completion" where
  "attachHls_native pid src w =
     (case v_canPlayType (video_of w pid) of
        NoCanPlayType \<Rightarrow> (None, console_warn ''No HLS support in this browser.'' w)
      | CanPlayThrows e \<Rightarrow> (Some e, w)
      | CanPlayAnswers a \<Rightarrow>
          if a \<noteq> [] then assign_src pid src w
          else (None, console_warn ''No HLS support in this browser.'' w))"

definition attachHls_decoder :: "hls_lib \<Rightarrow> nat \<Rightarrow> string \<Rightarrow> hint \<Rightarrow> world \<Rightarrow> completion" where
  "attachHls_decoder lib pid src startLevel w =
     andThen (new_Hls lib w) (\<lambda>w1.
     andThen (if hint_supplied startLevel
              then andThen (hls_call (set_startLevel lib (parseInt_hint startLevel))
                                     (SetStartLevel (parseInt_hint startLevel)) w1)
                           (hls_call (set_autoLevelEnabled lib) (SetAutoLevelEnabled False))
              else (None, w1)) (\<lambda>w2.
     andThen (hls_call (loadSource lib src) (LoadSource src) w2)
             (hls_call (attachMedia lib) (AttachMedia pid))))"

definition attachHls_try :: "nat \<Rightarrow> string \<Rightarrow> hint \<Rightarrow> world \<Rightarrow> completion" where
  "attachHls_try pid src startLevel w =
     (case w_Hls w of
        None \<Rightarrow> attachHls_native pid src w
      | Some lib \<Rightarrow>
          (case isSupported lib of
             Inl e \<Rightarrow> (Some e, w)
           | Inr supported \<Rightarrow>
               if supported then attachHls_decoder lib pid src startLevel w
               else attachHls_native pid src w))"

definition attachHls :: "nat \<Rightarrow> string \<Rightarrow> hint \<Rightarrow> world \<Rightarrow> completion" where
  "attachHls pid src startLevel w =
     (case attachHls_try pid src startLevel (log_event (AttachHlsCall pid) w) of
        (Some err, w') \<Rightarrow> (None, console_error ''vd-card attachHls error:'' err w')
      | (None, w') \<Rightarrow> (None, w'))"

text \<open>\<^verbatim>\<open>while (videoEl.firstChild) videoEl.removeChild(videoEl.firstChild);\<close>\<close>

fun remove_children :: "vnode list \<Rightarrow> vnode list" where
  "remove_children [] = []"
| "remove_children (c # cs) = remove_children cs"

text \<open>
  \<^verbatim>\<open>
  function attachDirectFile(videoEl, src){
    const type = detectMimeTypeFromUrl(src);
    while (videoEl.firstChild) videoEl.removeChild(videoEl.firstChild);
    const source = document.createElement('source');
    source.src = src;
    if (type) source.type = type;
    videoEl.appendChild(source);
    try { videoEl.src = src; } catch(e) {}
  }
  \<close>
\<close>

definition attachDirectFile :: "nat \<Rightarrow> string \<Rightarrow> world \<Rightarrow> world" where
  "attachDirectFile pid src w =
     (let type = detectMimeTypeFromUrl src;
          w1 = update_video pid (\<lambda>v. v\<lparr>v_children := remove_children (v_children v)\<rparr>)
                 (log_event (AttachDirectCall pid) w);
          source = \<lparr>src_attr = src, type_attr = (if type \<noteq> [] then Some type else None)\<rparr>;
          w2 = update_video pid (\<lambda>v. v\<lparr>v_children := v_children v @ [SourceEl source]\<rparr>) w1
      in snd (assign_src pid src w2))"

text \<open>
  \<^verbatim>\<open>
  function createPosterOverlay(posterUrl, onClick){
    const overlay = document.createElement('div');
    overlay.className = 'vd-poster';
    if (posterUrl) overlay.style.backgroundImage = `url("${posterUrl}")`;
    const btn = document.createElement('div');
    btn.className = 'vd-playbtn';
    overlay.appendChild(btn);
    overlay.addEventListener('click', onClick);
    return overlay;
  }
  \<close>
  The listener of the overlay of player \<open>pid\<close> is \<open>onPlayClick pid\<close> below.
\<close>

definition createPosterOverlay :: "string \<Rightarrow> overlay_el" where
  "createPosterOverlay posterUrl =
     \<lparr>o_className = ''vd-poster'',
      o_backgroundImage =
        (if posterUrl \<noteq> [] then Some (''url('' @ [CHR 0x22] @ posterUrl @ [CHR 0x22] @ '')'')
         else None),
      o_children = [''vd-playbtn'']\<rparr>"

text \<open>\<^verbatim>\<open>overlay.remove()\<close> and \<^verbatim>\<open>try { video.play(); } catch(e){}\<close>\<close>

definition overlay_remove :: "nat \<Rightarrow> world \<Rightarrow> world" where
  "overlay_remove pid w =
     log_event (OverlayRemoved pid) (update_player pid (\<lambda>p. p\<lparr>p_overlay_attached := False\<rparr>) w)"

definition play :: "nat \<Rightarrow> world \<Rightarrow> world" where
  "play pid w = log_event (PlayCalled pid) w"

text \<open>\<^verbatim>\<open>if (video.canPlayType && video.canPlayType('application/vnd.apple.mpegurl')) { video.src = src; }\<close>,
  the fallback of the two load callbacks; it stands outside any \<^verbatim>\<open>try\<close>.\<close>

definition native_fallback :: "nat \<Rightarrow> string \<Rightarrow> world \<Rightarrow> completion" where
  "native_fallback pid src w =
     (case v_canPlayType (video_of w pid) of
        NoCanPlayType \<Rightarrow> (None, w)
      | CanPlayThrows e \<Rightarrow> (Some e, w)
      | CanPlayAnswers a \<Rightarrow>
          if a \<noteq> [] then assign_src pid src (log_event (NativeSrcSet pid) w)
          else (None, w))"

text \<open>The callback of the click handler (lines 114-127 of the script).\<close>

definition clickLoaded :: "nat \<Rightarrow> bool \<Rightarrow> world \<Rightarrow> completion" where
  "clickLoaded pid err w =
     (let p = w_players w ! pid
      in andThen
           (if err
            then native_fallback pid (p_src p)
                   (console_warn ''Could not load hls.js from CDN, trying native fallback.'' w)
            else attachHls pid (p_src p) (p_startLevel p) w)
           (\<lambda>w1. (None, play pid (overlay_remove pid w1))))"

text \<open>The callback of the eager path (lines 151-160).\<close>

definition eagerLoaded :: "nat \<Rightarrow> bool \<Rightarrow> world \<Rightarrow> completion" where
  "eagerLoaded pid err w =
     (let p = w_players w ! pid
      in if err then native_fallback pid (p_src p) w
         else attachHls pid (p_src p) (p_startLevel p) w)"

text \<open>\<^verbatim>\<open>onPlayClick\<close> (lines 109-139).\<close>

definition onPlayClick :: "nat \<Rightarrow> world \<Rightarrow> completion" where
  "onPlayClick pid w =
     (let p = w_players w ! pid
      in if isHlsSource (p_src p) then
           (if w_Hls w = None then (None, loadScript (p_hlsCdn p) (ClickLoaded pid) w)
            else andThen (attachHls pid (p_src p) (p_startLevel p) w)
                   (\<lambda>w1. (None, play pid (overlay_remove pid w1))))
         else (None, play pid (overlay_remove pid (attachDirectFile pid (p_src p) w))))"

record opts =
  hlsCdn :: string
  autoInit :: jsval
  lazyLoad :: jsval

definition getAttribute :: "card \<Rightarrow> string \<Rightarrow> string option" where
  "getAttribute c name = map_of (c_attrs c) name"

fun node_texts :: "cnode \<Rightarrow> (string \<times> string) list" where
  "node_texts (Elem cls txt) = [(cls, txt)]"
| "node_texts (Head els) = els"
| "node_texts (Wrapper pid) = []"

text \<open>\<^verbatim>\<open>card.querySelector('.' + cls)?.textContent\<close>\<close>

definition querySelector_text :: "card \<Rightarrow> string \<Rightarrow> string option" where
  "querySelector_text c cls = map_of (concat (map node_texts (c_children c))) cls"

text \<open>
  \<^verbatim>\<open>initOne(card, opts)\<close> (lines 86-182 of the script), in the order of its statements: the
  values read from the attributes of the card (lines 89-95), the elements built (lines
  97-106 and 142-144), the eager attachment (lines 147-172) and the injection into the card
  (lines 175-181).
\<close>

text \<open>\<^verbatim>\<open>card.getAttribute('data-title') || card.querySelector('.vd-title')?.textContent || ""\<close>,
  and the same for the description.\<close>

definition card_title :: "card \<Rightarrow> string" where
  "card_title c =
     js_or (getAttribute c ''data-title'') (js_or (querySelector_text c ''vd-title'') [])"

definition card_desc :: "card \<Rightarrow> string" where
  "card_desc c =
     js_or (getAttribute c ''data-desc'') (js_or (querySelector_text c ''vd-desc'') [])"

text \<open>\<^verbatim>\<open>const poster = card.getAttribute('data-poster') || "";\<close>\<close>

definition card_poster :: "card \<Rightarrow> string" where
  "card_poster c = js_or (getAttribute c ''data-poster'') []"

text \<open>
  \<^verbatim>\<open>
  const lazyAttr = card.getAttribute('data-lazy');
  const lazy = (lazyAttr === '1' || lazyAttr === 'true') || !!opts.lazyLoad;
  \<close>
\<close>

definition card_lazy :: "opts \<Rightarrow> card \<Rightarrow> bool" where
  "card_lazy opts c =
     (let lazyAttr = getAttribute c ''data-lazy''
      in (lazyAttr = Some ''1'' \<or> lazyAttr = Some ''true'') \<or> truthy (lazyLoad opts))"

text \<open>
  \<^verbatim>\<open>
  const startLevelAttr = card.getAttribute('data-startlevel');
  const startLevel = (startLevelAttr != null && startLevelAttr !== '') ? parseInt(startLevelAttr, 10) : null;
  \<close>
\<close>

definition card_startLevel :: "card \<Rightarrow> hint" where
  "card_startLevel c =
     (case getAttribute c ''data-startlevel'' of
        None \<Rightarrow> Null
      | Some a \<Rightarrow> if a \<noteq> [] then Number (parseInt10 a) else Null)"

text \<open>The wrapper with its video and its overlay, as lines 97-106 and 142-144 build them:
  the video has the attributes \<^verbatim>\<open>controls\<close> and \<^verbatim>\<open>playsinline\<close>, a \<^verbatim>\<open>preload\<close> that
  depends on the lazy flag, no source, the \<^verbatim>\<open>canPlayType\<close> the browser gives a video
  element, and a \<^verbatim>\<open>src\<close> setter that does not throw, as the DOM has it; the overlay is a
  child of the wrapper.\<close>

definition build_player :: "opts \<Rightarrow> card \<Rightarrow> string \<Rightarrow> canPlay \<Rightarrow> player" where
  "build_player opts c src native =
     \<lparr>p_src = src, p_startLevel = card_startLevel c, p_hlsCdn = hlsCdn opts,
      p_video = \<lparr>v_attributes = [(''controls'', []), (''playsinline'', [])],
                 v_preload = (if card_lazy opts c then ''none'' else ''metadata''),
                 v_src = None, v_children = [],
                 v_canPlayType = native, v_src_setter = None\<rparr>,
      p_overlay = createPosterOverlay (card_poster c),
      p_overlay_attached = True\<rparr>"

text \<open>
  \<^verbatim>\<open>
  if (isHlsSource(src)) {
    if (typeof window.Hls === 'undefined') {
      loadScript(opts.hlsCdn, function(err){ ... });
    } else {
      attachHls(video, src, startLevel);
    }
  } else {
    attachDirectFile(video, src);
  }
  if (!poster) { overlay.remove(); }
  \<close>
  the body of \<^verbatim>\<open>if (!lazy)\<close>.
\<close>

definition eager_attach :: "opts \<Rightarrow> nat \<Rightarrow> string \<Rightarrow> hint \<Rightarrow> string \<Rightarrow> world \<Rightarrow> completion" where
  "eager_attach opts pid src startLevel poster w =
     andThen
       (if isHlsSource src then
          (if w_Hls w = None then (None, loadScript (hlsCdn opts) (EagerLoaded pid) w)
           else attachHls pid src startLevel w)
        else (None, attachDirectFile pid src w))
       (\<lambda>w'. (None, if poster = [] then overlay_remove pid w' else w'))"

text \<open>
  \<^verbatim>\<open>
  card.innerHTML = '';
  const head = document.createElement('div');
  head.className = 'vd-head';
  if (title) head.innerHTML = `<div class="vd-title">${title}</div>`;
  if (desc) head.innerHTML += `<div class="vd-desc">${desc}</div>`;
  card.appendChild(head);
  card.appendChild(wrapper);
  \<close>
\<close>

definition inject :: "nat \<Rightarrow> nat \<Rightarrow> string \<Rightarrow> string \<Rightarrow> world \<Rightarrow> world" where
  "inject i pid title desc w =
     log_event (Injected pid)
       (w\<lparr>w_cards := (w_cards w)
              [i := (w_cards w ! i)\<lparr>c_children :=
                 [Head ((if title \<noteq> [] then [(''vd-title'', title)] else []) @
                        (if desc \<noteq> [] then [(''vd-desc'', desc)] else [])),
                  Wrapper pid]\<rparr>]\<rparr>)"

text \<open>
  \<^verbatim>\<open>
  function initOne(card, opts){
    const src = card.getAttribute('data-src');
    if (!src) return;
    ...
  }
  \<close>
  with the parts above in place of the dots. \<open>i\<close> is the index of the card among the
  placeholders of the document; \<^verbatim>\<open>initAll\<close> passes indices of the document only.
\<close>

definition initOne :: "opts \<Rightarrow> nat \<Rightarrow> world \<Rightarrow> completion" where
  "initOne opts i w =
     (if length (w_cards w) \<le> i then (None, w)
      else
        let c = w_cards w ! i
        in case getAttribute c ''data-src'' of
             None \<Rightarrow> (None, w)
           | Some src \<Rightarrow>
               if src = [] then (None, w)
               else
                 let title = card_title c;
                     desc = card_desc c;
                     pid = length (w_players w);
                     w1 = log_event (Built pid)
                            (w\<lparr>w_players := w_players w @
                                  [build_player opts c src (w_native w)]\<rparr>)
                 in andThen
                      (if \<not> card_lazy opts c
                       then eager_attach opts pid src (card_startLevel c) (card_poster c) w1
                       else (None, w1))
                      (\<lambda>w3. (None, inject i pid title desc w3)))"

text \<open>The options object a caller passes to \<^verbatim>\<open>VdCard.init\<close>: each property is present or
  not.\<close>

record options =
  opt_hlsCdn :: "string option"
  opt_autoInit :: "jsval option"
  opt_lazyLoad :: "jsval option"

definition DEFAULTS :: opts where
  "DEFAULTS = \<lparr>hlsCdn = ''https://cdn.jsdelivr.net/npm/hls.js@latest'',
               autoInit = VBool True, lazyLoad = VBool False\<rparr>"

text \<open>\<^verbatim>\<open>Object.assign({}, DEFAULTS, options || {})\<close>\<close>

definition assign_options :: "options option \<Rightarrow> opts" where
  "assign_options options =
     (case options of
        None \<Rightarrow> DEFAULTS
      | Some o' \<Rightarrow>
          \<lparr>hlsCdn = (case opt_hlsCdn o' of None \<Rightarrow> hlsCdn DEFAULTS | Some v \<Rightarrow> v),
           autoInit = (case opt_autoInit o' of None \<Rightarrow> autoInit DEFAULTS | Some v \<Rightarrow> v),
           lazyLoad = (case opt_lazyLoad o' of None \<Rightarrow> lazyLoad DEFAULTS | Some v \<Rightarrow> v)\<rparr>)"

text \<open>The selector \<^verbatim>\<open>.vd-card[data-src]\<close>\<close>

definition selected :: "card \<Rightarrow> bool" where
  "selected c = (''vd-card'' \<in> set (c_classes c) \<and> getAttribute c ''data-src'' \<noteq> None)"

text \<open>\<^verbatim>\<open>cards.forEach(function(card){ initOne(card, opts); })\<close>: an exception ends the loop.\<close>

fun forEach_initOne :: "opts \<Rightarrow> nat list \<Rightarrow> world \<Rightarrow> completion" where
  "forEach_initOne opts [] w = (None, w)"
| "forEach_initOne opts (i # is) w = andThen (initOne opts i w) (forEach_initOne opts is)"

text \<open>
  \<^verbatim>\<open>
  function initAll(options){
    const opts = Object.assign({}, DEFAULTS, options || {});
    const cards = document.querySelectorAll('.vd-card[data-src]');
    if (cards.length === 0) return;
    cards.forEach(function(card){ initOne(card, opts); });
  }
  \<close>
\<close>

definition initAll :: "options option \<Rightarrow> world \<Rightarrow> completion" where
  "initAll options w =
     (let opts = assign_options options;
          cards = filter (\<lambda>i. selected (w_cards w ! i)) [0..<length (w_cards w)]
      in if length cards = 0 then (None, w)
         else forEach_initOne opts cards w)"

section \<open>The events of the page\<close>

text \<open>What happens on the page: a call of \<^verbatim>\<open>VdCard.init\<close> (the \<^verbatim>\<open>DOMContentLoaded\<close> listener
  calls it without options), a click on the overlay of a player, and the outcome of a script
  load (a successful load may define \<^verbatim>\<open>window.Hls\<close>).\<close>

datatype stimulus =
    Init "options option"
  | Click nat
  | ScriptLoaded nat "hls_lib option"
  | ScriptFailed nat

definition in_document :: "world \<Rightarrow> nat \<Rightarrow> bool" where
  "in_document w pid = list_ex (\<lambda>c. Wrapper pid \<in> set (c_children c)) (w_cards w)"

text \<open>A script element reports the outcome of its load once.\<close>

definition in_flight :: "world \<Rightarrow> nat \<Rightarrow> bool" where
  "in_flight w k = (k < length (w_head w) \<and> \<not> s_fired (w_head w ! k))"

definition fire :: "nat \<Rightarrow> bool \<Rightarrow> world \<Rightarrow> completion" where
  "fire k err w =
     (case s_callback (w_head w ! k) of
        EagerLoaded pid \<Rightarrow> eagerLoaded pid err
      | ClickLoaded pid \<Rightarrow> clickLoaded pid err)
       (w\<lparr>w_head := (w_head w)[k := (w_head w ! k)\<lparr>s_fired := True\<rparr>]\<rparr>)"

text \<open>A click reaches the handler of an overlay that is in the document.\<close>

definition clickable :: "world \<Rightarrow> nat \<Rightarrow> bool" where
  "clickable w pid =
     (pid < length (w_players w) \<and> p_overlay_attached (w_players w ! pid) \<and> in_document w pid)"

fun step :: "stimulus \<Rightarrow> world \<Rightarrow> completion" where
  "step (Init options) w = initAll options w"
| "step (Click pid) w = (if clickable w pid then onPlayClick pid w else (None, w))"
| "step (ScriptLoaded k lib) w =
     (if in_flight w k
      then fire k False (case lib of None \<Rightarrow> w | Some l \<Rightarrow> w\<lparr>w_Hls := Some l\<rparr>)
      else (None, w))"
| "step (ScriptFailed k) w = (if in_flight w k then fire k True w else (None, w))"

text \<open>A run of the page: an exception that escapes a handler ends that handler only.\<close>

fun run :: "stimulus list \<Rightarrow> world \<Rightarrow> world" where
  "run [] w = w"
| "run (s # ss) w = run ss (snd (step s w))"


section \<open>The click handler of version 1.0.0\<close>

text \<open>
  The file \<^verbatim>\<open>src/vd-card.js\<close> is version 1.0.0 of the script. It attaches on click only, and
  its \<^verbatim>\<open>attachHls\<close> takes no hint:
  \<^verbatim>\<open>
  function attachHls(videoEl, src){
    try {
      if (window.Hls && window.Hls.isSupported()) {
        const hls = new window.Hls();
        hls.loadSource(src);
        hls.attachMedia(videoEl);
      } else if (videoEl.canPlayType && videoEl.canPlayType('application/vnd.apple.mpegurl')) {
        videoEl.src = src;
      } else {
        console.warn("No HLS support in this browser.");
      }
    } catch (err){
      console.error("vd-card attach error:", err);
    }
  }
  \<close>
\<close>

definition attachHls_v1_try :: "nat \<Rightarrow> string \<Rightarrow> world \<Rightarrow> completion" where
  "attachHls_v1_try pid src w =
     (case w_Hls w of
        None \<Rightarrow> attachHls_native pid src w
      | Some lib \<Rightarrow>
          (case isSupported lib of
             Inl e \<Rightarrow> (Some e, w)
           | Inr supported \<Rightarrow>
               if supported then
                 andThen (new_Hls lib w) (\<lambda>w1.
                 andThen (hls_call (loadSource lib src) (LoadSource src) w1)
                         (hls_call (attachMedia lib) (AttachMedia pid)))
               else attachHls_native pid src w))"

definition attachHls_v1 :: "nat \<Rightarrow> string \<Rightarrow> world \<Rightarrow> completion" where
  "attachHls_v1 pid src w =
     (case attachHls_v1_try pid src (log_event (AttachHlsCall pid) w) of
        (Some err, w') \<Rightarrow> (None, console_error ''vd-card attach error:'' err w')
      | (None, w') \<Rightarrow> (None, w'))"

text \<open>
  \<^verbatim>\<open>
  function(){
    if (!video.src && !video.childElementCount) {
      attachHls(video, src);
    } else if (!video.src && video.src !== src) {
      video.src = src;
    }
    overlay.remove();
    try { video.play(); } catch(e){}
  }
  \<close>
  \<^verbatim>\<open>video.src\<close> reads as the empty string when the attribute is absent.
\<close>

definition overlay_click_v1 :: "nat \<Rightarrow> world \<Rightarrow> completion" where
  "overlay_click_v1 pid w =
     (let p = w_players w ! pid; v = p_video p
      in andThen
           (if v_src v = None \<and> length (v_children v) = 0 then attachHls_v1 pid (p_src p) w
            else if v_src v = None \<and> [] \<noteq> p_src p
                 then assign_src pid (p_src p) (log_event (NativeSrcSet pid) w)
                 else (None, w))
           (\<lambda>w1. (None, play pid (overlay_remove pid w1))))"

section \<open>Pages to run the script on\<close>

text \<open>A placeholder with the class \<^verbatim>\<open>vd-card\<close> and the given attributes, and a page that holds
  the given placeholders before the script has run.\<close>

definition placeholder :: "(string \<times> string) list \<Rightarrow> card" where
  "placeholder attrs = \<lparr>c_classes = [''vd-card''], c_attrs = attrs, c_children = []\<rparr>"

definition page :: "hls_lib option \<Rightarrow> canPlay \<Rightarrow> card list \<Rightarrow> world" where
  "page lib native cards =
     \<lparr>w_Hls = lib, w_native = native, w_cards = cards, w_players = [], w_decoders = [],
      w_head = [], w_console = [], w_trace = []\<rparr>"

text \<open>A decoder library that supports the browser and whose operations return.\<close>

definition working_hls :: hls_lib where
  "working_hls =
     \<lparr>isSupported = Inr True, construct = None, set_startLevel = (\<lambda>_. None),
      set_autoLevelEnabled = None, loadSource = (\<lambda>_. None), attachMedia = None\<rparr>"

section \<open>Relations used in the proofs\<close>

text \<open>Two states of a player that differ at most in the \<^verbatim>\<open>src\<close> attribute of the video.\<close>

definition same_but_src :: "player \<Rightarrow> player \<Rightarrow> bool" where
  "same_but_src p p' = (\<exists>x. p' = p\<lparr>p_video := (p_video p)\<lparr>v_src := x\<rparr>\<rparr>)"

text \<open>A placeholder that \<open>initOne\<close> does not skip.\<close>

definition has_src :: "card \<Rightarrow> bool" where
  "has_src c = (getAttribute c ''data-src'' \<noteq> None \<and> getAttribute c ''data-src'' \<noteq> Some [])"

text \<open>The operations \<open>attachHls\<close> performs on a decoder it has created, in their order, when
  none of them throws.\<close>

definition decoder_script :: "nat \<Rightarrow> string \<Rightarrow> hint \<Rightarrow> decoder_op list" where
  "decoder_script pid src h =
     (if hint_supplied h then [SetStartLevel (parseInt_hint h), SetAutoLevelEnabled False] else [])
     @ [LoadSource src, AttachMedia pid]"

text \<open>A decoder library whose \<^verbatim>\<open>loadSource\<close> throws.\<close>

definition failing_hls :: hls_lib where
  "failing_hls = working_hls\<lparr>loadSource := (\<lambda>_. Some (Exn ''manifest''))\<rparr>"

section \<open>Orderings on the trace\<close>

text \<open>The player whose video an event attaches a source to, if the event is an
  attachment: a call of \<open>attachHls\<close> or of \<open>attachDirectFile\<close>, or the assignment of
  \<^verbatim>\<open>video.src\<close> in a load callback.\<close>

fun attached_pid :: "event \<Rightarrow> nat option" where
  "attached_pid (AttachHlsCall p) = Some p"
| "attached_pid (AttachDirectCall p) = Some p"
| "attached_pid (NativeSrcSet p) = Some p"
| "attached_pid (Built p) = None"
| "attached_pid (OverlayRemoved p) = None"
| "attached_pid (Injected p) = None"
| "attached_pid (ScriptRequested u) = None"
| "attached_pid (PlayCalled p) = None"

text \<open>On a trace read backwards (latest event first): the elements of a player were built
  before each attachment to its video.\<close>

fun built_before_attach :: "event list \<Rightarrow> bool" where
  "built_before_attach [] = True"
| "built_before_attach (e # earlier) =
     ((case attached_pid e of None \<Rightarrow> True | Some p \<Rightarrow> Built p \<in> set earlier)
      \<and> built_before_attach earlier)"

definition built_first :: "event list \<Rightarrow> bool" where
  "built_first tr = built_before_attach (rev tr)"

text \<open>No attachment to the video of a player follows the removal of its overlay.\<close>

fun removed_last :: "event list \<Rightarrow> bool" where
  "removed_last [] = True"
| "removed_last (e # later) =
     ((case e of
         OverlayRemoved p \<Rightarrow> list_all (\<lambda>x. attached_pid x \<noteq> Some p) later
       | _ \<Rightarrow> True)
      \<and> removed_last later)"

fun callback_pid :: "callback \<Rightarrow> nat" where
  "callback_pid (EagerLoaded p) = p"
| "callback_pid (ClickLoaded p) = p"

text \<open>The callbacks in flight close over players that exist, and every player that exists
  was built.\<close>

definition callbacks_ok :: "world \<Rightarrow> bool" where
  "callbacks_ok w =
     ((\<forall>s \<in> set (w_head w). callback_pid (s_callback s) < length (w_players w))
      \<and> (\<forall>p < length (w_players w). Built p \<in> set (w_trace w)))"

text \<open>What a handler of player \<open>pid\<close> may do to the page: it creates no player, it may
  request scripts whose callbacks close over \<open>pid\<close>, and the events it adds attach to the
  video of \<open>pid\<close> only, never after removing the overlay.\<close>

definition handler_effect :: "nat \<Rightarrow> world \<Rightarrow> world \<Rightarrow> bool" where
  "handler_effect pid w w' =
     (length (w_players w') = length (w_players w)
      \<and> (\<exists>cbs. map s_callback (w_head w') = map s_callback (w_head w) @ cbs
                 \<and> (\<forall>cb \<in> set cbs. callback_pid cb = pid))
      \<and> (\<exists>evs. w_trace w' = w_trace w @ evs \<and> removed_last evs
                 \<and> (\<forall>e \<in> set evs. \<forall>p. attached_pid e = Some p \<longrightarrow> p = pid)))"

text \<open>The invariant of a page: the above, and on its trace the elements of a player were
  built before each attachment to its video.\<close>

definition page_inv :: "world \<Rightarrow> bool" where
  "page_inv w = (callbacks_ok w \<and> built_first (w_trace w))"

section \<open>The source classifier\<close>

lemma m3u8_here_iff:
  "m3u8_here s \<longleftrightarrow>
     (\<exists>x q. s = x @ q \<and> x \<in> {''.m3u8'', ''.M3u8'', ''.m3U8'', ''.M3U8''}
        \<and> (q = [] \<or> hd q = CHR ''?'' \<or> hd q = CHR ''#''))"
  (is "?L \<longleftrightarrow> ?R")
proof
  assume ?L
  then obtain a b c d e rest where s: "s = [a, b, c, d, e] @ rest"
    by (cases s rule: m3u8_here.cases) auto
  with \<open>?L\<close> have "[a, b, c, d, e] \<in> {''.m3u8'', ''.M3u8'', ''.m3U8'', ''.M3U8''}"
    and "rest = [] \<or> hd rest = CHR ''?'' \<or> hd rest = CHR ''#''"
    by (auto split: list.splits)
  with s show ?R by blast
next
  assume ?R
  then obtain x q where "s = x @ q"
    and "x \<in> {''.m3u8'', ''.M3u8'', ''.m3U8'', ''.M3U8''}"
    and "q = [] \<or> hd q = CHR ''?'' \<or> hd q = CHR ''#''"
    by blast
  then show ?L by (cases q) auto
qed

lemma m3u8_test_iff:
  "m3u8_test s \<longleftrightarrow>
     (\<exists>p e q. s = p @ e @ q \<and> e \<in> {''.m3u8'', ''.M3u8'', ''.m3U8'', ''.M3U8''}
        \<and> (q = [] \<or> hd q = CHR ''?'' \<or> hd q = CHR ''#''))"
proof (induction s)
  case Nil
  then show ?case by auto
next
  case (Cons c cs)
  show ?case (is "?L \<longleftrightarrow> ?R")
  proof
    assume ?L
    then consider "m3u8_here (c # cs)" | "m3u8_test cs" by auto
    then show ?R
    proof cases
      case 1
      then obtain e q where "c # cs = [] @ e @ q"
        and "e \<in> {''.m3u8'', ''.M3u8'', ''.m3U8'', ''.M3U8''}"
        and "q = [] \<or> hd q = CHR ''?'' \<or> hd q = CHR ''#''"
        unfolding m3u8_here_iff by auto
      then show ?thesis by blast
    next
      case 2
      then obtain p e q where "cs = p @ e @ q"
        and e: "e \<in> {''.m3u8'', ''.M3u8'', ''.m3U8'', ''.M3U8''}"
        and q: "q = [] \<or> hd q = CHR ''?'' \<or> hd q = CHR ''#''"
        unfolding Cons.IH by auto
      then have "c # cs = (c # p) @ e @ q" by simp
      with e q show ?thesis by blast
    qed
  next
    assume ?R
    then obtain p e q where pe: "c # cs = p @ e @ q"
      and e: "e \<in> {''.m3u8'', ''.M3u8'', ''.m3U8'', ''.M3U8''}"
      and q: "q = [] \<or> hd q = CHR ''?'' \<or> hd q = CHR ''#''"
      by auto
    show ?L
    proof (cases p)
      case Nil
      with pe e q have "m3u8_here (c # cs)" unfolding m3u8_here_iff by auto
      then show ?thesis by simp
    next
      case (Cons x xs)
      with pe have "cs = xs @ e @ q" by simp
      with e q have "m3u8_test cs" unfolding Cons.IH by blast
      then show ?thesis by simp
    qed
  qed
qed

lemma index_from_found:
  "index_from pat s i \<noteq> - 1 \<longleftrightarrow> (\<exists>p q. s = p @ pat @ q)"
proof (induction s arbitrary: i)
  case Nil
  then show ?case by auto
next
  case (Cons c cs)
  show ?case
  proof (cases "prefix pat (c # cs)")
    case True
    then obtain q where "c # cs = [] @ pat @ q" by (auto simp: prefix_def)
    then have "\<exists>p q. c # cs = p @ pat @ q" by blast
    with True show ?thesis by simp
  next
    case False
    have "(\<exists>p q. c # cs = p @ pat @ q) \<longleftrightarrow> (\<exists>p q. cs = p @ pat @ q)"
    proof
      assume "\<exists>p q. c # cs = p @ pat @ q"
      then obtain p q where pq: "c # cs = p @ pat @ q" by blast
      with False have "p \<noteq> []" by (auto simp: prefix_def)
      then obtain x xs where "p = x # xs" by (cases p) auto
      with pq have "cs = xs @ pat @ q" by simp
      then show "\<exists>p q. cs = p @ pat @ q" by blast
    next
      assume "\<exists>p q. cs = p @ pat @ q"
      then obtain p q where "cs = p @ pat @ q" by blast
      then have "c # cs = (c # p) @ pat @ q" by simp
      then show "\<exists>p q. c # cs = p @ pat @ q" by blast
    qed
    with False Cons.IH show ?thesis by simp
  qed
qed

lemma indexOf_found: "indexOf s pat \<noteq> - 1 \<longleftrightarrow> (\<exists>p q. s = p @ pat @ q)"
  by (simp add: indexOf_def index_from_found)

text \<open>A URL whose path ends in the manifest extension, in either case of its letters, alone
  or followed by a query or a fragment, is classified as an adaptive stream.\<close>

lemma isHlsSource_path_m3u8:
  assumes "e \<in> {''.m3u8'', ''.M3u8'', ''.m3U8'', ''.M3U8''}"
    and "q = [] \<or> hd q = CHR ''?'' \<or> hd q = CHR ''#''"
  shows "isHlsSource (p @ e @ q)"
proof -
  have "m3u8_test (p @ e @ q)"
    unfolding m3u8_test_iff using assms by blast
  moreover have "p @ e @ q \<noteq> []" using assms(1) by auto
  ultimately show ?thesis by (simp add: isHlsSource_def)
qed

text \<open>What \<open>isHlsSource\<close> computes: it answers adaptive-stream exactly for the strings in
  which \<^verbatim>\<open>.m3u8\<close>, in either case of its letters, occurs at some index and is followed at
  once by \<^verbatim>\<open>?\<close>, by \<^verbatim>\<open>#\<close> or by the end of the string, and for the strings that contain
  the token \<^verbatim>\<open>application/vnd.apple.mpegurl\<close>. The regular expression is tried at every
  index, so the occurrence is not bound to the path of the URL.\<close>

lemma isHlsSource_iff_occurrence:
  "isHlsSource src \<longleftrightarrow>
     (\<exists>p e q. src = p @ e @ q \<and> e \<in> {''.m3u8'', ''.M3u8'', ''.m3U8'', ''.M3U8''}
        \<and> (q = [] \<or> hd q = CHR ''?'' \<or> hd q = CHR ''#''))
     \<or> (\<exists>p q. src = p @ hls_mime @ q)"
proof (cases "src = []")
  case True
  then show ?thesis by (auto simp: isHlsSource_def hls_mime_def)
next
  case False
  then show ?thesis
    unfolding isHlsSource_def indexOf_found m3u8_test_iff by simp
qed

text \<open>The URL \<^verbatim>\<open>media/stream.M3U8?token=1\<close> is an adaptive stream, and the file
  \<^verbatim>\<open>movie.mp4\<close>, alone or with a query or a fragment that does not end in \<^verbatim>\<open>.m3u8\<close>, is
  a direct file.\<close>

lemma isHlsSource_examples:
  "isHlsSource ''media/stream.M3U8?token=1''
   \<and> \<not> isHlsSource ''movie.mp4''
   \<and> \<not> isHlsSource ''movie.mp4?next=a.m3u8x''
   \<and> \<not> isHlsSource ''movie.mp4#t=10''"
  by (simp add: isHlsSource_def indexOf_def hls_mime_def)

text \<open>
  C1. The URL \<^verbatim>\<open>movie.mp4?next=a.m3u8\<close> has the extension \<^verbatim>\<open>mp4\<close> and does not contain
  the MIME-type token, and \<open>isHlsSource\<close> classifies it as an adaptive stream where a URL
  with another extension than \<^verbatim>\<open>m3u8\<close> is to be a direct file. The group \<^verbatim>\<open>(\?|#|$)\<close> of
  the regular expression looks for the end of the path, but the expression is tried at
  every index of the string, and the end of the query satisfies it. The function
  \<open>detectMimeTypeFromUrl\<close> of the same script cuts the query off and reads \<^verbatim>\<open>mp4\<close> from
  this URL.
\<close>

theorem isHlsSource_query_m3u8:
  "isHlsSource ''movie.mp4?next=a.m3u8''
   \<and> detectMimeTypeFromUrl ''movie.mp4?next=a.m3u8'' = ''video/mp4''
   \<and> indexOf ''movie.mp4?next=a.m3u8'' hls_mime = - 1"
  by (simp add: isHlsSource_def detectMimeTypeFromUrl_def toLowerCase_def js_lower_char_def
      indexOf_def hls_mime_def)

section \<open>The MIME type of a direct file\<close>

lemma split_on_nonempty [simp]: "split_on d s \<noteq> []"
  by (induction s) (auto split: list.splits)

lemma split_on_no_sep: "d \<notin> set s \<Longrightarrow> split_on d s = [s]"
  by (induction s) auto

lemma split_on_append:
  "split_on d (p @ d # e) = split_on d p @ split_on d e"
proof (induction p)
  case Nil
  then show ?case by simp
next
  case (Cons c p)
  then show ?case by (cases "split_on d p") auto
qed

lemma hd_split_on: "d \<notin> set p \<Longrightarrow> hd (split_on d (p @ d # q)) = p"
  by (simp add: split_on_append split_on_no_sep)

lemma last_split_on: "d \<notin> set e \<Longrightarrow> last (split_on d (p @ d # e)) = e"
  by (simp add: split_on_append split_on_no_sep)

text \<open>The URLs on which \<open>detectMimeTypeFromUrl\<close> reads the extension of the path: the path ends
  in a dot and an extension, and nothing or a query follows. The result depends on the
  extension in lower case only.\<close>

lemma detectMimeTypeFromUrl_query:
  assumes "CHR ''?'' \<notin> set base" and "CHR ''.'' \<notin> set ext" and "CHR ''?'' \<notin> set ext"
    and "q = [] \<or> hd q = CHR ''?''"
  shows "detectMimeTypeFromUrl (base @ ''.'' @ ext @ q) =
     (if toLowerCase ext = ''mp4'' then ''video/mp4''
      else if toLowerCase ext = ''webm'' then ''video/webm''
      else if toLowerCase ext = ''ogg'' then ''video/ogg''
      else if toLowerCase ext = ''mov'' then ''video/quicktime''
      else '''')"
proof -
  have path: "hd (split_on (CHR ''?'') (base @ ''.'' @ ext @ q)) = base @ ''.'' @ ext"
  proof (cases q)
    case Nil
    then show ?thesis using assms(1,3) by (simp add: split_on_no_sep)
  next
    case (Cons c q')
    with assms(4) have "base @ ''.'' @ ext @ q = (base @ ''.'' @ ext) @ CHR ''?'' # q'" by simp
    moreover have "CHR ''?'' \<notin> set (base @ ''.'' @ ext)" using assms(1,3) by simp
    ultimately show ?thesis using hd_split_on by metis
  qed
  have "last (split_on (CHR ''.'') (base @ CHR ''.'' # ext)) = ext"
    using assms(2) by (rule last_split_on)
  then have ext: "last (split_on (CHR ''.'') (base @ ''.'' @ ext)) = ext" by simp
  show ?thesis
    unfolding detectMimeTypeFromUrl_def path ext Let_def by simp
qed

lemma detectMimeTypeFromUrl_query_example:
  "detectMimeTypeFromUrl ''a.b/movie.MP4?x=1.webm'' = ''video/mp4''"
proof -
  have "toLowerCase ''MP4'' = ''mp4''" by code_simp
  with detectMimeTypeFromUrl_query [of "''a.b/movie''" "''MP4''" "''?x=1.webm''"]
  show ?thesis by simp
qed

text \<open>
  C4. \<open>detectMimeTypeFromUrl\<close> cuts the URL at the first \<^verbatim>\<open>?\<close> only, so a fragment stays
  in the extension: \<^verbatim>\<open>movie.mp4#t=10\<close> has the extension \<^verbatim>\<open>mp4\<close> and gets the empty
  type, while the same file with a query gets \<^verbatim>\<open>video/mp4\<close> and the classifier
  \<open>isHlsSource\<close> of the same script does stop at \<^verbatim>\<open>#\<close>.
\<close>

theorem detectMimeTypeFromUrl_fragment:
  "detectMimeTypeFromUrl ''movie.mp4#t=10'' = ''''
   \<and> detectMimeTypeFromUrl ''movie.mp4?t=10'' = ''video/mp4''
   \<and> isHlsSource ''stream.m3u8#t=10''"
  by (simp add: detectMimeTypeFromUrl_def toLowerCase_def js_lower_char_def isHlsSource_def)

section \<open>What each function changes\<close>

lemmas prims = log_event_def console_warn_def console_error_def update_player_def
  update_video_def video_of_def decoder_op_def

lemmas eval_defs = initOne_def eager_attach_def inject_def andThen_def Let_def
  attachDirectFile_def assign_src_def overlay_remove_def play_def update_video_def
  update_player_def video_of_def log_event_def console_warn_def console_error_def
  build_player_def card_title_def card_desc_def card_poster_def card_lazy_def
  card_startLevel_def createPosterOverlay_def js_or_def getAttribute_def
  querySelector_text_def page_def placeholder_def DEFAULTS_def isHlsSource_def indexOf_def
  hls_mime_def detectMimeTypeFromUrl_def toLowerCase_def js_lower_char_def loadScript_def
  initAll_def assign_options_def selected_def onPlayClick_def clickLoaded_def eagerLoaded_def
  native_fallback_def attachHls_def attachHls_try_def attachHls_native_def
  attachHls_decoder_def new_Hls_def hls_call_def decoder_op_def hint_supplied_def
  clickable_def in_document_def in_flight_def fire_def working_hls_def

lemma same_but_src_refl [simp]: "same_but_src p p"
proof -
  have "p = p\<lparr>p_video := (p_video p)\<lparr>v_src := v_src (p_video p)\<rparr>\<rparr>" by simp
  then show ?thesis unfolding same_but_src_def by blast
qed

lemma same_but_src_set [simp]: "same_but_src p (p\<lparr>p_video := (p_video p)\<lparr>v_src := x\<rparr>\<rparr>)"
  unfolding same_but_src_def by blast

lemma same_but_src_fields:
  assumes "same_but_src p p'"
  shows "p_src p' = p_src p" and "p_startLevel p' = p_startLevel p" and "p_hlsCdn p' = p_hlsCdn p"
    and "p_overlay p' = p_overlay p" and "p_overlay_attached p' = p_overlay_attached p"
    and "v_attributes (p_video p') = v_attributes (p_video p)"
    and "v_preload (p_video p') = v_preload (p_video p)"
    and "v_children (p_video p') = v_children (p_video p)"
    and "v_canPlayType (p_video p') = v_canPlayType (p_video p)"
    and "v_src_setter (p_video p') = v_src_setter (p_video p)"
  using assms by (auto simp: same_but_src_def)

lemma list_all2_same_refl [simp]: "list_all2 same_but_src ps ps"
  by (simp add: list_all2_conv_all_nth)

lemma list_all2_same_update [simp]:
  "list_all2 same_but_src ps (ps[pid := (ps ! pid)\<lparr>p_video := (p_video (ps ! pid))\<lparr>v_src := x\<rparr>\<rparr>])"
proof (cases "pid < length ps")
  case True
  then show ?thesis by (simp add: list_all2_conv_all_nth nth_list_update)
next
  case False
  then have "ps[pid := (ps ! pid)\<lparr>p_video := (p_video (ps ! pid))\<lparr>v_src := x\<rparr>\<rparr>] = ps"
    by (intro list_update_beyond) simp
  then show ?thesis by (simp only: list_all2_same_refl)
qed

lemma assign_src_frame:
  "assign_src pid src w = (r, w') \<Longrightarrow>
     list_all2 same_but_src (w_players w) (w_players w') \<and> w_trace w' = w_trace w
     \<and> w_cards w' = w_cards w \<and> w_head w' = w_head w \<and> w_Hls w' = w_Hls w
     \<and> w_native w' = w_native w \<and> w_decoders w' = w_decoders w \<and> w_console w' = w_console w"
  by (auto simp: assign_src_def prims split: option.splits)

lemma attachHls_native_frame:
  "attachHls_native pid src w = (r, w') \<Longrightarrow>
     list_all2 same_but_src (w_players w) (w_players w') \<and> w_trace w' = w_trace w
     \<and> w_cards w' = w_cards w \<and> w_head w' = w_head w \<and> w_Hls w' = w_Hls w
     \<and> w_native w' = w_native w \<and> w_decoders w' = w_decoders w"
  by (auto simp: attachHls_native_def prims dest!: assign_src_frame split: canPlay.splits if_splits)

lemma attachHls_decoder_frame:
  "attachHls_decoder lib pid src h w = (r, w') \<Longrightarrow>
     w_players w' = w_players w \<and> w_trace w' = w_trace w
     \<and> w_cards w' = w_cards w \<and> w_head w' = w_head w \<and> w_Hls w' = w_Hls w
     \<and> w_native w' = w_native w \<and> w_console w' = w_console w"
  by (auto simp: attachHls_decoder_def new_Hls_def hls_call_def andThen_def prims
      split: option.splits if_splits)

lemma attachHls_try_frame:
  "attachHls_try pid src h w = (r, w') \<Longrightarrow>
     list_all2 same_but_src (w_players w) (w_players w') \<and> w_trace w' = w_trace w
     \<and> w_cards w' = w_cards w \<and> w_head w' = w_head w \<and> w_Hls w' = w_Hls w
     \<and> w_native w' = w_native w"
  by (auto simp: attachHls_try_def dest!: attachHls_native_frame attachHls_decoder_frame
      split: option.splits sum.splits if_splits)

lemma attachHls_frame:
  "attachHls pid src h w = (r, w') \<Longrightarrow>
     r = None \<and> list_all2 same_but_src (w_players w) (w_players w')
     \<and> w_trace w' = w_trace w @ [AttachHlsCall pid]
     \<and> w_cards w' = w_cards w \<and> w_head w' = w_head w \<and> w_Hls w' = w_Hls w
     \<and> w_native w' = w_native w"
  by (auto simp: attachHls_def prims dest!: attachHls_try_frame
      split: option.splits prod.splits)

lemma attachDirectFile_frame:
  "w_trace (attachDirectFile pid src w) = w_trace w @ [AttachDirectCall pid]
   \<and> length (w_players (attachDirectFile pid src w)) = length (w_players w)
   \<and> w_cards (attachDirectFile pid src w) = w_cards w
   \<and> w_head (attachDirectFile pid src w) = w_head w
   \<and> w_Hls (attachDirectFile pid src w) = w_Hls w
   \<and> w_native (attachDirectFile pid src w) = w_native w
   \<and> w_decoders (attachDirectFile pid src w) = w_decoders w"
  by (simp add: attachDirectFile_def Let_def assign_src_def prims split: option.splits)

lemma remove_children_Nil [simp]: "remove_children cs = []"
  by (induction cs) simp_all

lemma attachDirectFile_video:
  assumes "pid < length (w_players w)"
  shows "v_children (video_of (attachDirectFile pid src w) pid) =
           [SourceEl \<lparr>src_attr = src,
                      type_attr = (if detectMimeTypeFromUrl src \<noteq> [] then Some (detectMimeTypeFromUrl src) else None)\<rparr>]"
    and "v_src_setter (video_of w pid) = None \<Longrightarrow> v_src (video_of (attachDirectFile pid src w) pid) = Some src"
    and "p_overlay_attached (w_players (attachDirectFile pid src w) ! pid) = p_overlay_attached (w_players w ! pid)"
  using assms
  by (simp_all add: attachDirectFile_def Let_def assign_src_def prims split: option.splits)

lemma players_frame_nth:
  assumes "list_all2 same_but_src ps ps'" and "q < length ps"
  shows "same_but_src (ps ! q) (ps' ! q)"
  using assms by (simp add: list_all2_conv_all_nth)

lemma update_player_nth:
  "w_players (update_player pid f w) ! q =
     (if q = pid \<and> pid < length (w_players w) then f (w_players w ! pid) else w_players w ! q)"
proof (cases "pid < length (w_players w)")
  case True
  then show ?thesis by (auto simp: update_player_def)
next
  case False
  then have "(w_players w)[pid := f (w_players w ! pid)] = w_players w"
    by (intro list_update_beyond) simp
  with False show ?thesis by (simp add: update_player_def)
qed

lemma update_video_nth:
  "video_of (update_video pid f w) q =
     (if q = pid \<and> pid < length (w_players w) then f (video_of w pid) else video_of w q)"
  by (simp add: update_video_def video_of_def update_player_nth)

lemma update_player_fields [simp]:
  "length (w_players (update_player pid f w)) = length (w_players w)"
  "w_trace (update_player pid f w) = w_trace w"
  "w_cards (update_player pid f w) = w_cards w"
  "w_head (update_player pid f w) = w_head w"
  "w_Hls (update_player pid f w) = w_Hls w"
  "w_native (update_player pid f w) = w_native w"
  "w_decoders (update_player pid f w) = w_decoders w"
  "w_console (update_player pid f w) = w_console w"
  by (simp_all add: update_player_def)

lemma update_video_fields [simp]:
  "length (w_players (update_video pid f w)) = length (w_players w)"
  "w_trace (update_video pid f w) = w_trace w"
  "w_cards (update_video pid f w) = w_cards w"
  "w_head (update_video pid f w) = w_head w"
  "w_Hls (update_video pid f w) = w_Hls w"
  "w_native (update_video pid f w) = w_native w"
  "w_decoders (update_video pid f w) = w_decoders w"
  "w_console (update_video pid f w) = w_console w"
  by (simp_all add: update_video_def)

lemma log_event_fields [simp]:
  "w_players (log_event e w) = w_players w"
  "w_trace (log_event e w) = w_trace w @ [e]"
  "w_cards (log_event e w) = w_cards w"
  "w_head (log_event e w) = w_head w"
  "w_Hls (log_event e w) = w_Hls w"
  "w_native (log_event e w) = w_native w"
  "w_decoders (log_event e w) = w_decoders w"
  "w_console (log_event e w) = w_console w"
  "video_of (log_event e w) q = video_of w q"
  by (simp_all add: log_event_def video_of_def)

lemma console_fields [simp]:
  "w_players (console_warn m w) = w_players w"
  "w_trace (console_warn m w) = w_trace w"
  "w_cards (console_warn m w) = w_cards w"
  "w_head (console_warn m w) = w_head w"
  "w_Hls (console_warn m w) = w_Hls w"
  "w_native (console_warn m w) = w_native w"
  "w_decoders (console_warn m w) = w_decoders w"
  "video_of (console_warn m w) q = video_of w q"
  "w_players (console_error m x w) = w_players w"
  "w_trace (console_error m x w) = w_trace w"
  "w_cards (console_error m x w) = w_cards w"
  "w_head (console_error m x w) = w_head w"
  "w_Hls (console_error m x w) = w_Hls w"
  "w_native (console_error m x w) = w_native w"
  "w_decoders (console_error m x w) = w_decoders w"
  "video_of (console_error m x w) q = video_of w q"
  by (simp_all add: console_warn_def console_error_def video_of_def)

lemma overlay_remove_fields [simp]:
  "length (w_players (overlay_remove pid w)) = length (w_players w)"
  "w_trace (overlay_remove pid w) = w_trace w @ [OverlayRemoved pid]"
  "w_cards (overlay_remove pid w) = w_cards w"
  "w_head (overlay_remove pid w) = w_head w"
  "w_Hls (overlay_remove pid w) = w_Hls w"
  "w_native (overlay_remove pid w) = w_native w"
  "w_decoders (overlay_remove pid w) = w_decoders w"
  "w_console (overlay_remove pid w) = w_console w"
  "video_of (overlay_remove pid w) q = video_of w q"
  "p_overlay_attached (w_players (overlay_remove pid w) ! q) =
     (if q = pid \<and> pid < length (w_players w) then False
      else p_overlay_attached (w_players w ! q))"
  by (simp_all add: overlay_remove_def video_of_def update_player_nth)

lemma play_fields [simp]:
  "w_players (play pid w) = w_players w"
  "w_trace (play pid w) = w_trace w @ [PlayCalled pid]"
  "w_cards (play pid w) = w_cards w"
  "w_head (play pid w) = w_head w"
  "w_Hls (play pid w) = w_Hls w"
  "w_native (play pid w) = w_native w"
  "w_decoders (play pid w) = w_decoders w"
  "w_console (play pid w) = w_console w"
  "video_of (play pid w) q = video_of w q"
  by (simp_all add: play_def)

lemma loadScript_fields [simp]:
  "w_players (loadScript u cb w) = w_players w"
  "w_trace (loadScript u cb w) = w_trace w @ [ScriptRequested u]"
  "w_cards (loadScript u cb w) = w_cards w"
  "w_head (loadScript u cb w) = w_head w @ [\<lparr>s_src = u, s_callback = cb, s_fired = False\<rparr>]"
  "w_Hls (loadScript u cb w) = w_Hls w"
  "w_native (loadScript u cb w) = w_native w"
  "w_decoders (loadScript u cb w) = w_decoders w"
  "w_console (loadScript u cb w) = w_console w"
  "video_of (loadScript u cb w) q = video_of w q"
  by (simp_all add: loadScript_def video_of_def)

lemma attachDirectFile_preload:
  "v_preload (video_of (attachDirectFile pid src w) q) = v_preload (video_of w q)"
  by (simp add: attachDirectFile_def Let_def assign_src_def update_video_nth
      split: option.splits)

lemma eager_attach_frame:
  assumes "eager_attach opts pid src h poster w = (r, w')"
  shows "r = None" and "length (w_players w') = length (w_players w)"
    and "w_cards w' = w_cards w" and "w_native w' = w_native w" and "w_Hls w' = w_Hls w"
    and "q < length (w_players w) \<Longrightarrow> v_preload (video_of w' q) = v_preload (video_of w q)"
    and "\<exists>e \<in> {ScriptRequested (hlsCdn opts), AttachHlsCall pid, AttachDirectCall pid}.
           w_trace w' = w_trace w @ e # (if poster = [] then [OverlayRemoved pid] else [])"
proof -
  define c where "c = (if isHlsSource src then
          (if w_Hls w = None then (None, loadScript (hlsCdn opts) (EagerLoaded pid) w)
           else attachHls pid src h w)
        else (None, attachDirectFile pid src w))"
  obtain r1 w1 where c: "c = (r1, w1)" by (cases c)
  have r1: "r1 = None" and len1: "length (w_players w1) = length (w_players w)"
    and cards1: "w_cards w1 = w_cards w" and nat1: "w_native w1 = w_native w"
    and hls1: "w_Hls w1 = w_Hls w"
    and pre1: "q < length (w_players w) \<Longrightarrow> v_preload (video_of w1 q) = v_preload (video_of w q)"
    and tr1: "\<exists>e \<in> {ScriptRequested (hlsCdn opts), AttachHlsCall pid, AttachDirectCall pid}.
           w_trace w1 = w_trace w @ [e]"
  proof -
    consider (script) "isHlsSource src" "w_Hls w = None"
      | (hls) "isHlsSource src" "w_Hls w \<noteq> None"
      | (direct) "\<not> isHlsSource src" by blast
    then have "r1 = None \<and> length (w_players w1) = length (w_players w)
      \<and> w_cards w1 = w_cards w \<and> w_native w1 = w_native w \<and> w_Hls w1 = w_Hls w
      \<and> (q < length (w_players w) \<longrightarrow> v_preload (video_of w1 q) = v_preload (video_of w q))
      \<and> (\<exists>e \<in> {ScriptRequested (hlsCdn opts), AttachHlsCall pid, AttachDirectCall pid}.
           w_trace w1 = w_trace w @ [e])"
    proof cases
      case script
      with c show ?thesis by (auto simp: c_def)
    next
      case hls
      with c have a: "attachHls pid src h w = (r1, w1)" by (simp add: c_def)
      note f = attachHls_frame [OF a]
      have "q < length (w_players w) \<Longrightarrow> v_preload (video_of w1 q) = v_preload (video_of w q)"
        using same_but_src_fields(7) [OF players_frame_nth, of "w_players w" "w_players w1" q] f
        by (simp add: video_of_def)
      moreover have "length (w_players w1) = length (w_players w)"
        using f list_all2_lengthD [of same_but_src "w_players w" "w_players w1"] by simp
      ultimately show ?thesis using f by simp
    next
      case direct
      with c have "w1 = attachDirectFile pid src w" "r1 = None" by (simp_all add: c_def)
      then show ?thesis by (simp add: attachDirectFile_frame attachDirectFile_preload)
    qed
    then show "r1 = None" "length (w_players w1) = length (w_players w)"
      "w_cards w1 = w_cards w" "w_native w1 = w_native w" "w_Hls w1 = w_Hls w"
      "q < length (w_players w) \<Longrightarrow> v_preload (video_of w1 q) = v_preload (video_of w q)"
      "\<exists>e \<in> {ScriptRequested (hlsCdn opts), AttachHlsCall pid, AttachDirectCall pid}.
           w_trace w1 = w_trace w @ [e]"
      by blast+
  qed
  have res: "(r, w') = (None, if poster = [] then overlay_remove pid w1 else w1)"
    using assms c r1 unfolding eager_attach_def c_def [symmetric] by (simp add: andThen_def)
  show "r = None" using res by simp
  show "length (w_players w') = length (w_players w)"
    using res len1 by (auto split: if_splits)
  show "w_cards w' = w_cards w" using res cards1 by (auto split: if_splits)
  show "w_native w' = w_native w" using res nat1 by (auto split: if_splits)
  show "w_Hls w' = w_Hls w" using res hls1 by (auto split: if_splits)
  show "v_preload (video_of w' q) = v_preload (video_of w q)" if "q < length (w_players w)"
  proof -
    have "v_preload (video_of w' q) = v_preload (video_of w1 q)"
      using res by (auto split: if_splits)
    with pre1 [OF that] show ?thesis by simp
  qed
  show "\<exists>e \<in> {ScriptRequested (hlsCdn opts), AttachHlsCall pid, AttachDirectCall pid}.
           w_trace w' = w_trace w @ e # (if poster = [] then [OverlayRemoved pid] else [])"
    using res tr1 by (auto split: if_splits)
qed

lemma build_player_fields [simp]:
  "p_src (build_player opts c src native) = src"
  "p_startLevel (build_player opts c src native) = card_startLevel c"
  "p_hlsCdn (build_player opts c src native) = hlsCdn opts"
  "p_overlay_attached (build_player opts c src native)"
  "v_src (p_video (build_player opts c src native)) = None"
  "v_children (p_video (build_player opts c src native)) = []"
  "v_canPlayType (p_video (build_player opts c src native)) = native"
  "v_src_setter (p_video (build_player opts c src native)) = None"
  by (simp_all add: build_player_def)

section \<open>Lazy mode\<close>

lemma inject_fields [simp]:
  "w_players (inject i pid t d w) = w_players w"
  "w_trace (inject i pid t d w) = w_trace w @ [Injected pid]"
  "w_head (inject i pid t d w) = w_head w"
  "w_Hls (inject i pid t d w) = w_Hls w"
  "w_native (inject i pid t d w) = w_native w"
  "w_decoders (inject i pid t d w) = w_decoders w"
  "w_console (inject i pid t d w) = w_console w"
  "video_of (inject i pid t d w) q = video_of w q"
  "length (w_cards (inject i pid t d w)) = length (w_cards w)"
  by (simp_all add: inject_def video_of_def)

lemma inject_cards:
  "w_cards (inject i pid t d w) ! j =
     (if j = i \<and> i < length (w_cards w)
      then (w_cards w ! i)\<lparr>c_children :=
             [Head ((if t \<noteq> [] then [(''vd-title'', t)] else []) @
                    (if d \<noteq> [] then [(''vd-desc'', d)] else [])), Wrapper pid]\<rparr>
      else w_cards w ! j)"
proof (cases "i < length (w_cards w)")
  case True
  then show ?thesis by (auto simp: inject_def)
next
  case False
  then have "(w_cards w)[i := (w_cards w ! i)\<lparr>c_children :=
             [Head ((if t \<noteq> [] then [(''vd-title'', t)] else []) @
                    (if d \<noteq> [] then [(''vd-desc'', d)] else [])), Wrapper pid]\<rparr>] = w_cards w"
    by (intro list_update_beyond) simp
  with False show ?thesis by (simp add: inject_def)
qed

text \<open>The three ways \<open>initOne\<close> goes.\<close>

lemma initOne_skip:
  assumes "length (w_cards w) \<le> i \<or> getAttribute (w_cards w ! i) ''data-src'' = None
           \<or> getAttribute (w_cards w ! i) ''data-src'' = Some []"
  shows "initOne opts i w = (None, w)"
  using assms by (auto simp: initOne_def)

lemma initOne_lazy:
  assumes "i < length (w_cards w)"
    and "getAttribute (w_cards w ! i) ''data-src'' = Some src" and "src \<noteq> []"
    and "card_lazy opts (w_cards w ! i)"
  shows "initOne opts i w =
     (None, inject i (length (w_players w)) (card_title (w_cards w ! i)) (card_desc (w_cards w ! i))
        (log_event (Built (length (w_players w)))
           (w\<lparr>w_players := w_players w @ [build_player opts (w_cards w ! i) src (w_native w)]\<rparr>)))"
  using assms by (simp add: initOne_def andThen_def Let_def)

lemma initOne_eager:
  assumes "i < length (w_cards w)"
    and "getAttribute (w_cards w ! i) ''data-src'' = Some src" and "src \<noteq> []"
    and "\<not> card_lazy opts (w_cards w ! i)"
  shows "initOne opts i w =
     (None, inject i (length (w_players w)) (card_title (w_cards w ! i)) (card_desc (w_cards w ! i))
        (snd (eager_attach opts (length (w_players w)) src (card_startLevel (w_cards w ! i))
                (card_poster (w_cards w ! i))
           (log_event (Built (length (w_players w)))
              (w\<lparr>w_players := w_players w @ [build_player opts (w_cards w ! i) src (w_native w)]\<rparr>)))))"
proof -
  let ?w1 = "log_event (Built (length (w_players w)))
              (w\<lparr>w_players := w_players w @ [build_player opts (w_cards w ! i) src (w_native w)]\<rparr>)"
  obtain r w' where e: "eager_attach opts (length (w_players w)) src (card_startLevel (w_cards w ! i))
                (card_poster (w_cards w ! i)) ?w1 = (r, w')"
    by (cases "eager_attach opts (length (w_players w)) src (card_startLevel (w_cards w ! i))
                (card_poster (w_cards w ! i)) ?w1")
  have "r = None" by (rule eager_attach_frame(1) [OF e])
  with e assms show ?thesis by (simp add: initOne_def andThen_def Let_def)
qed

lemma card_lazy_iff:
  "card_lazy opts c \<longleftrightarrow>
     getAttribute c ''data-lazy'' = Some ''1'' \<or> getAttribute c ''data-lazy'' = Some ''true''
     \<or> truthy (lazyLoad opts)"
  by (simp add: card_lazy_def Let_def)

text \<open>
  C10. For a placeholder that \<open>initOne\<close> does not skip, lazy mode is on exactly when
  \<^verbatim>\<open>data-lazy\<close> is the string \<^verbatim>\<open>1\<close> or the string \<^verbatim>\<open>true\<close>, or the option \<^verbatim>\<open>lazyLoad\<close> is
  truthy. Lazy mode shows in the \<^verbatim>\<open>preload\<close> of the video (\<^verbatim>\<open>none\<close>) and in that
  initialisation neither attaches a source nor requests the decoder script.
\<close>

theorem lazy_mode_iff:
  assumes "i < length (w_cards w)"
    and "getAttribute (w_cards w ! i) ''data-src'' = Some src" and "src \<noteq> []"
  shows "(v_preload (video_of (snd (initOne opts i w)) (length (w_players w))) = ''none''
            \<longleftrightarrow> getAttribute (w_cards w ! i) ''data-lazy'' = Some ''1''
                \<or> getAttribute (w_cards w ! i) ''data-lazy'' = Some ''true''
                \<or> truthy (lazyLoad opts))
     \<and> (w_trace (snd (initOne opts i w)) =
            w_trace w @ [Built (length (w_players w)), Injected (length (w_players w))]
            \<longleftrightarrow> getAttribute (w_cards w ! i) ''data-lazy'' = Some ''1''
                \<or> getAttribute (w_cards w ! i) ''data-lazy'' = Some ''true''
                \<or> truthy (lazyLoad opts))"
proof (cases "card_lazy opts (w_cards w ! i)")
  case True
  have "v_preload (video_of (snd (initOne opts i w)) (length (w_players w))) = ''none''"
    using True by (simp add: initOne_lazy [OF assms True] video_of_def build_player_def)
  moreover have "w_trace (snd (initOne opts i w)) =
            w_trace w @ [Built (length (w_players w)), Injected (length (w_players w))]"
    by (simp add: initOne_lazy [OF assms True])
  ultimately show ?thesis using True by (simp add: card_lazy_iff)
next
  case False
  let ?pid = "length (w_players w)"
  let ?w1 = "log_event (Built ?pid)
              (w\<lparr>w_players := w_players w @ [build_player opts (w_cards w ! i) src (w_native w)]\<rparr>)"
  obtain r w' where e: "eager_attach opts ?pid src (card_startLevel (w_cards w ! i))
                (card_poster (w_cards w ! i)) ?w1 = (r, w')"
    by (cases "eager_attach opts ?pid src (card_startLevel (w_cards w ! i))
                (card_poster (w_cards w ! i)) ?w1")
  note f = eager_attach_frame [OF e]
  have eq: "snd (initOne opts i w) =
      inject i ?pid (card_title (w_cards w ! i)) (card_desc (w_cards w ! i)) w'"
    by (simp add: initOne_eager [OF assms False] e)
  have "v_preload (video_of w' ?pid) = v_preload (video_of ?w1 ?pid)"
    by (rule f(6)) simp
  then have "v_preload (video_of (snd (initOne opts i w)) ?pid) = ''metadata''"
    using False by (simp add: eq video_of_def build_player_def)
  then have "v_preload (video_of (snd (initOne opts i w)) ?pid) \<noteq> ''none''" by simp
  moreover have "w_trace (snd (initOne opts i w)) \<noteq> w_trace w @ [Built ?pid, Injected ?pid]"
    using f(7) by (auto simp: eq)
  ultimately show ?thesis using False by (simp add: card_lazy_iff)
qed

text \<open>On a page with one placeholder for \<^verbatim>\<open>movie.mp4\<close>: \<^verbatim>\<open>data-lazy="TRUE"\<close> does not turn
  lazy mode on, \<^verbatim>\<open>data-lazy="true"\<close> does, and with a truthy \<^verbatim>\<open>lazyLoad\<close> option
  \<^verbatim>\<open>data-lazy="0"\<close> does not turn it off.\<close>

theorem lazy_mode_iff_witness:
  "v_preload (video_of (snd (initOne DEFAULTS 0
       (page None NoCanPlayType [placeholder [(''data-src'', ''movie.mp4''), (''data-lazy'', ''TRUE'')]]))) 0)
     \<noteq> ''none''
   \<and> v_preload (video_of (snd (initOne DEFAULTS 0
       (page None NoCanPlayType [placeholder [(''data-src'', ''movie.mp4''), (''data-lazy'', ''true'')]]))) 0)
     = ''none''
   \<and> v_preload (video_of (snd (initOne (DEFAULTS\<lparr>lazyLoad := VString ''yes''\<rparr>) 0
       (page None NoCanPlayType [placeholder [(''data-src'', ''movie.mp4''), (''data-lazy'', ''0'')]]))) 0)
     = ''none''"
proof -
  let ?page = "\<lambda>v. page None NoCanPlayType [placeholder [(''data-src'', ''movie.mp4''), (''data-lazy'', v)]]"
  have a: "v_preload (video_of (snd (initOne DEFAULTS 0 (?page ''TRUE''))) 0) \<noteq> ''none''"
    using lazy_mode_iff [of 0 "?page ''TRUE''" "''movie.mp4''" DEFAULTS]
    by (simp add: page_def placeholder_def getAttribute_def DEFAULTS_def)
  have b: "v_preload (video_of (snd (initOne DEFAULTS 0 (?page ''true''))) 0) = ''none''"
    using lazy_mode_iff [of 0 "?page ''true''" "''movie.mp4''" DEFAULTS]
    by (simp add: page_def placeholder_def getAttribute_def DEFAULTS_def)
  have c: "v_preload (video_of (snd (initOne (DEFAULTS\<lparr>lazyLoad := VString ''yes''\<rparr>) 0 (?page ''0''))) 0) = ''none''"
    using lazy_mode_iff [of 0 "?page ''0''" "''movie.mp4''" "DEFAULTS\<lparr>lazyLoad := VString ''yes''\<rparr>"]
    by (simp add: page_def placeholder_def getAttribute_def DEFAULTS_def)
  from a b c show ?thesis by blast
qed

section \<open>Eager attachment of a direct file\<close>

lemma initOne_eager_direct_eq:
  assumes "i < length (w_cards w)"
    and "getAttribute (w_cards w ! i) ''data-src'' = Some src" and "src \<noteq> []"
    and "\<not> isHlsSource src"
    and "\<not> card_lazy opts (w_cards w ! i)"
  shows "initOne opts i w =
     (None, inject i (length (w_players w)) (card_title (w_cards w ! i)) (card_desc (w_cards w ! i))
        ((if card_poster (w_cards w ! i) = [] then overlay_remove (length (w_players w)) else id)
           (attachDirectFile (length (w_players w)) src
              (log_event (Built (length (w_players w)))
                 (w\<lparr>w_players := w_players w @ [build_player opts (w_cards w ! i) src (w_native w)]\<rparr>)))))"
  using assms by (simp add: initOne_def eager_attach_def andThen_def Let_def)

text \<open>
  A placeholder with a direct-file \<^verbatim>\<open>data-src\<close>, lazy mode disabled and no \<^verbatim>\<open>data-poster\<close>:
  after \<open>initOne\<close> the wrapper is in the card and the overlay is no longer in the wrapper;
  the video has exactly one child, a source element whose \<^verbatim>\<open>src\<close> is the URL and whose
  \<^verbatim>\<open>type\<close> is the result of \<open>detectMimeTypeFromUrl\<close>, absent when that is empty; the \<^verbatim>\<open>src\<close>
  of the video itself is the URL. \<open>attachDirectFile\<close> leaves that one child whatever
  children the video had before.
\<close>

lemma initOne_eager_direct_file:
  assumes "i < length (w_cards w)"
    and "getAttribute (w_cards w ! i) ''data-src'' = Some src" and "src \<noteq> []"
    and "\<not> isHlsSource src"
    and "\<not> card_lazy opts (w_cards w ! i)"
    and "getAttribute (w_cards w ! i) ''data-poster'' = None"
  shows "fst (initOne opts i w) = None
    \<and> Wrapper (length (w_players w)) \<in> set (c_children (w_cards (snd (initOne opts i w)) ! i))
    \<and> \<not> p_overlay_attached (w_players (snd (initOne opts i w)) ! length (w_players w))
    \<and> v_children (video_of (snd (initOne opts i w)) (length (w_players w))) =
         [SourceEl \<lparr>src_attr = src,
                    type_attr = (if detectMimeTypeFromUrl src = [] then None
                                 else Some (detectMimeTypeFromUrl src))\<rparr>]
    \<and> v_src (video_of (snd (initOne opts i w)) (length (w_players w))) = Some src
    \<and> (\<forall>w0 q. q < length (w_players w0) \<longrightarrow>
          v_children (video_of (attachDirectFile q src w0) q) =
            [SourceEl \<lparr>src_attr = src,
                       type_attr = (if detectMimeTypeFromUrl src = [] then None
                                    else Some (detectMimeTypeFromUrl src))\<rparr>])"
proof -
  let ?pid = "length (w_players w)"
  let ?w1 = "log_event (Built ?pid)
               (w\<lparr>w_players := w_players w @ [build_player opts (w_cards w ! i) src (w_native w)]\<rparr>)"
  have poster: "card_poster (w_cards w ! i) = []"
    using assms(6) by (simp add: card_poster_def js_or_def)
  have eq: "initOne opts i w =
      (None, inject i ?pid (card_title (w_cards w ! i)) (card_desc (w_cards w ! i))
               (overlay_remove ?pid (attachDirectFile ?pid src ?w1)))"
    using initOne_eager_direct_eq [OF assms(1-5)] poster by simp
  have len: "?pid < length (w_players ?w1)" by (simp add: prims)
  have setter: "v_src_setter (video_of ?w1 ?pid) = None"
    by (simp add: prims build_player_def)
  have cards: "w_cards (attachDirectFile ?pid src ?w1) = w_cards w"
    by (simp add: attachDirectFile_frame prims)
  have len2: "?pid < length (w_players (attachDirectFile ?pid src ?w1))"
    using len by (simp add: attachDirectFile_frame)
  have vid: "video_of (snd (initOne opts i w)) ?pid = video_of (attachDirectFile ?pid src ?w1) ?pid"
    using len2 by (simp add: eq inject_def overlay_remove_def prims)
  have "fst (initOne opts i w) = None" by (simp add: eq)
  moreover have "Wrapper ?pid \<in> set (c_children (w_cards (snd (initOne opts i w)) ! i))"
    using assms(1) cards by (simp add: eq inject_def overlay_remove_def prims)
  moreover have "\<not> p_overlay_attached (w_players (snd (initOne opts i w)) ! ?pid)"
    using len2 by (simp add: eq inject_def overlay_remove_def prims)
  moreover have "v_children (video_of (snd (initOne opts i w)) ?pid) =
         [SourceEl \<lparr>src_attr = src,
                    type_attr = (if detectMimeTypeFromUrl src = [] then None
                                 else Some (detectMimeTypeFromUrl src))\<rparr>]"
    unfolding vid using attachDirectFile_video(1) [OF len, of src] by simp
  moreover have "v_src (video_of (snd (initOne opts i w)) ?pid) = Some src"
    unfolding vid using attachDirectFile_video(2) [OF len setter] by simp
  moreover have "\<forall>w0 q. q < length (w_players w0) \<longrightarrow>
          v_children (video_of (attachDirectFile q src w0) q) =
            [SourceEl \<lparr>src_attr = src,
                       type_attr = (if detectMimeTypeFromUrl src = [] then None
                                    else Some (detectMimeTypeFromUrl src))\<rparr>]"
    using attachDirectFile_video(1) by simp
  ultimately show ?thesis by blast
qed

text \<open>
  Where the URL ends in a dot and an extension, alone or followed by a query, the type of
  the source child is read from the extension in lower case: \<^verbatim>\<open>video/mp4\<close> for \<^verbatim>\<open>mp4\<close>,
  \<^verbatim>\<open>video/webm\<close> for \<^verbatim>\<open>webm\<close>, \<^verbatim>\<open>video/ogg\<close> for \<^verbatim>\<open>ogg\<close>, \<^verbatim>\<open>video/quicktime\<close> for
  \<^verbatim>\<open>mov\<close>, and no type for any other extension.
\<close>

lemma initOne_eager_direct_extension:
  assumes "i < length (w_cards w)"
    and "getAttribute (w_cards w ! i) ''data-src'' = Some (base @ ''.'' @ ext @ q)"
    and "CHR ''?'' \<notin> set base" and "CHR ''.'' \<notin> set ext" and "CHR ''?'' \<notin> set ext"
    and "q = [] \<or> hd q = CHR ''?''"
    and "\<not> isHlsSource (base @ ''.'' @ ext @ q)"
    and "\<not> card_lazy opts (w_cards w ! i)"
    and "getAttribute (w_cards w ! i) ''data-poster'' = None"
  shows "v_children (video_of (snd (initOne opts i w)) (length (w_players w))) =
         [SourceEl \<lparr>src_attr = base @ ''.'' @ ext @ q,
                    type_attr =
                      (if toLowerCase ext = ''mp4'' then Some ''video/mp4''
                       else if toLowerCase ext = ''webm'' then Some ''video/webm''
                       else if toLowerCase ext = ''ogg'' then Some ''video/ogg''
                       else if toLowerCase ext = ''mov'' then Some ''video/quicktime''
                       else None)\<rparr>]"
proof -
  have ne: "base @ ''.'' @ ext @ q \<noteq> []" by simp
  note t = detectMimeTypeFromUrl_query [OF assms(3-6)]
  from initOne_eager_direct_file [OF assms(1,2) ne assms(7-9)]
  have "v_children (video_of (snd (initOne opts i w)) (length (w_players w))) =
         [SourceEl \<lparr>src_attr = base @ ''.'' @ ext @ q,
                    type_attr = (if detectMimeTypeFromUrl (base @ ''.'' @ ext @ q) = [] then None
                                 else Some (detectMimeTypeFromUrl (base @ ''.'' @ ext @ q)))\<rparr>]"
    by blast
  then show ?thesis unfolding t by simp
qed

text \<open>The scenario of the specification: \<^verbatim>\<open>data-src="movie.mp4"\<close>, no poster, lazy mode off
  gives one source child of type \<^verbatim>\<open>video/mp4\<close> and no overlay.\<close>

lemma initOne_eager_direct_file_example:
  "fst (initOne DEFAULTS 0 (page None NoCanPlayType [placeholder [(''data-src'', ''movie.mp4'')]])) = None
   \<and> c_children (w_cards (snd (initOne DEFAULTS 0
         (page None NoCanPlayType [placeholder [(''data-src'', ''movie.mp4'')]]))) ! 0) = [Head [], Wrapper 0]
   \<and> \<not> p_overlay_attached (w_players (snd (initOne DEFAULTS 0
         (page None NoCanPlayType [placeholder [(''data-src'', ''movie.mp4'')]]))) ! 0)
   \<and> v_children (video_of (snd (initOne DEFAULTS 0
         (page None NoCanPlayType [placeholder [(''data-src'', ''movie.mp4'')]]))) 0) =
        [SourceEl \<lparr>src_attr = ''movie.mp4'', type_attr = Some ''video/mp4''\<rparr>]
   \<and> v_src (video_of (snd (initOne DEFAULTS 0
         (page None NoCanPlayType [placeholder [(''data-src'', ''movie.mp4'')]]))) 0) = Some ''movie.mp4''"
  by (simp add: eval_defs)

text \<open>The file \<^verbatim>\<open>movie.mp4?next=a.m3u8\<close>, which \<open>isHlsSource\<close> takes for an adaptive stream,
  gets no source element: with the decoder library present it is loaded into a decoder as
  a manifest.\<close>

lemma initOne_query_m3u8_example:
  "v_children (video_of (snd (initOne DEFAULTS 0 (page (Some working_hls) NoCanPlayType
         [placeholder [(''data-src'', ''movie.mp4?next=a.m3u8'')]]))) 0) = []
   \<and> w_decoders (snd (initOne DEFAULTS 0 (page (Some working_hls) NoCanPlayType
         [placeholder [(''data-src'', ''movie.mp4?next=a.m3u8'')]]))) =
       [[LoadSource ''movie.mp4?next=a.m3u8'', AttachMedia 0]]"
  by (simp add: eval_defs)

text \<open>
  C3. The placeholder with \<^verbatim>\<open>data-src="movie.mp4#t=10"\<close>, lazy mode disabled and no
  \<^verbatim>\<open>data-poster\<close>: the source is a direct file, and after \<open>initOne\<close> the overlay is out of
  the wrapper, the video has exactly one source child with the URL and its own \<^verbatim>\<open>src\<close> is
  the URL; but the source child has no \<^verbatim>\<open>type\<close>, although the extension \<^verbatim>\<open>mp4\<close> is one
  of the four that the script knows. \<open>detectMimeTypeFromUrl\<close> cuts the URL at \<^verbatim>\<open>?\<close> only
  and takes \<^verbatim>\<open>mp4#t=10\<close> for the extension. The same file with a query in place of the
  fragment gets the type \<^verbatim>\<open>video/mp4\<close>.
\<close>

theorem eager_direct_fragment_no_type:
  "\<not> isHlsSource ''movie.mp4#t=10''
   \<and> fst (initOne DEFAULTS 0
         (page None NoCanPlayType [placeholder [(''data-src'', ''movie.mp4#t=10'')]])) = None
   \<and> \<not> p_overlay_attached (w_players (snd (initOne DEFAULTS 0
         (page None NoCanPlayType [placeholder [(''data-src'', ''movie.mp4#t=10'')]]))) ! 0)
   \<and> v_children (video_of (snd (initOne DEFAULTS 0
         (page None NoCanPlayType [placeholder [(''data-src'', ''movie.mp4#t=10'')]]))) 0) =
        [SourceEl \<lparr>src_attr = ''movie.mp4#t=10'', type_attr = None\<rparr>]
   \<and> v_src (video_of (snd (initOne DEFAULTS 0
         (page None NoCanPlayType [placeholder [(''data-src'', ''movie.mp4#t=10'')]]))) 0) =
        Some ''movie.mp4#t=10''
   \<and> v_children (video_of (snd (initOne DEFAULTS 0
         (page None NoCanPlayType [placeholder [(''data-src'', ''movie.mp4?t=10'')]]))) 0) =
        [SourceEl \<lparr>src_attr = ''movie.mp4?t=10'', type_attr = Some ''video/mp4''\<rparr>]"
  by (simp add: eval_defs)

section \<open>Initialisation\<close>

lemma initOne_cases:
  obtains (skip) "initOne opts i w = (None, w)"
      and "length (w_cards w) \<le> i \<or> getAttribute (w_cards w ! i) ''data-src'' = None
           \<or> getAttribute (w_cards w ! i) ''data-src'' = Some []"
  | (built) src w' where "i < length (w_cards w)"
      and "getAttribute (w_cards w ! i) ''data-src'' = Some src" and "src \<noteq> []"
      and "initOne opts i w =
             (None, inject i (length (w_players w)) (card_title (w_cards w ! i))
                      (card_desc (w_cards w ! i)) w')"
      and "length (w_players w') = Suc (length (w_players w))"
      and "w_cards w' = w_cards w"
proof (cases "length (w_cards w) \<le> i \<or> getAttribute (w_cards w ! i) ''data-src'' = None
           \<or> getAttribute (w_cards w ! i) ''data-src'' = Some []")
  case True
  then show ?thesis using skip initOne_skip by blast
next
  case False
  then obtain src where i: "i < length (w_cards w)"
    and s: "getAttribute (w_cards w ! i) ''data-src'' = Some src" and ne: "src \<noteq> []"
    by (cases "getAttribute (w_cards w ! i) ''data-src''") auto
  let ?w1 = "log_event (Built (length (w_players w)))
              (w\<lparr>w_players := w_players w @ [build_player opts (w_cards w ! i) src (w_native w)]\<rparr>)"
  show ?thesis
  proof (cases "card_lazy opts (w_cards w ! i)")
    case True
    show ?thesis
      by (rule built [OF i s ne initOne_lazy [OF i s ne True]]) simp_all
  next
    case False
    obtain r w' where e: "eager_attach opts (length (w_players w)) src
        (card_startLevel (w_cards w ! i)) (card_poster (w_cards w ! i)) ?w1 = (r, w')"
      by (cases "eager_attach opts (length (w_players w)) src
        (card_startLevel (w_cards w ! i)) (card_poster (w_cards w ! i)) ?w1")
    note f = eager_attach_frame [OF e]
    have "initOne opts i w =
             (None, inject i (length (w_players w)) (card_title (w_cards w ! i))
                      (card_desc (w_cards w ! i)) w')"
      by (simp add: initOne_eager [OF i s ne False] e)
    then show ?thesis
      by (rule built [OF i s ne]) (simp_all add: f)
  qed
qed

lemma initOne_returns: "fst (initOne opts i w) = None"
  by (rule initOne_cases [where opts = opts and i = i and w = w]) simp_all

lemma initOne_length_cards: "length (w_cards (snd (initOne opts i w))) = length (w_cards w)"
  by (rule initOne_cases [where opts = opts and i = i and w = w]) simp_all

lemma initOne_other_card:
  "j \<noteq> i \<Longrightarrow> w_cards (snd (initOne opts i w)) ! j = w_cards w ! j"
  by (rule initOne_cases [where opts = opts and i = i and w = w]) (simp_all add: inject_cards)

lemma initOne_attrs:
  "c_attrs (w_cards (snd (initOne opts i w)) ! j) = c_attrs (w_cards w ! j)"
  "c_classes (w_cards (snd (initOne opts i w)) ! j) = c_classes (w_cards w ! j)"
  by (rule initOne_cases [where opts = opts and i = i and w = w]; simp add: inject_cards)+

lemma has_src_initOne:
  "has_src (w_cards (snd (initOne opts i w)) ! j) = has_src (w_cards w ! j)"
  by (simp add: has_src_def getAttribute_def initOne_attrs)

lemma initOne_players:
  "length (w_players (snd (initOne opts i w))) =
     length (w_players w) + (if i < length (w_cards w) \<and> has_src (w_cards w ! i) then 1 else 0)"
  by (rule initOne_cases [where opts = opts and i = i and w = w]) (auto simp: has_src_def)

lemma forEach_step:
  "forEach_initOne opts (i # is) w = forEach_initOne opts is (snd (initOne opts i w))"
  using initOne_returns [of opts i w]
  by (cases "initOne opts i w") (simp add: andThen_def)

lemma forEach_returns: "fst (forEach_initOne opts is w) = None"
  by (induction "is" arbitrary: w) (simp_all add: forEach_step del: forEach_initOne.simps(2))

lemma forEach_keeps_card:
  assumes "\<not> has_src (w_cards w ! i)"
  shows "w_cards (snd (forEach_initOne opts is w)) ! i = w_cards w ! i"
  using assms
proof (induction "is" arbitrary: w)
  case Nil
  then show ?case by simp
next
  case (Cons j js)
  let ?w' = "snd (initOne opts j w)"
  have same: "w_cards ?w' ! i = w_cards w ! i"
  proof (cases "j = i")
    case True
    have "initOne opts i w = (None, w)"
      using Cons.prems by (intro initOne_skip) (auto simp: has_src_def)
    with True show ?thesis by simp
  next
    case False
    then show ?thesis by (simp add: initOne_other_card)
  qed
  then have "\<not> has_src (w_cards ?w' ! i)" using Cons.prems by simp
  from Cons.IH [OF this] same show ?case by (simp add: forEach_step del: forEach_initOne.simps(2))
qed

lemma forEach_players:
  assumes "\<forall>j \<in> set is. j < length (w_cards w)"
  shows "length (w_players (snd (forEach_initOne opts is w))) =
     length (w_players w) + length (filter (\<lambda>j. has_src (w_cards w ! j)) is)"
  using assms
proof (induction "is" arbitrary: w)
  case Nil
  then show ?case by simp
next
  case (Cons j js)
  let ?w' = "snd (initOne opts j w)"
  have "\<forall>k \<in> set js. k < length (w_cards ?w')"
    using Cons.prems by (simp add: initOne_length_cards)
  from Cons.IH [OF this] Cons.prems show ?case
    by (simp add: forEach_step initOne_players has_src_initOne del: forEach_initOne.simps(2))
qed

lemma filter_indices_length:
  "length (filter (\<lambda>j. P (xs ! j)) [0..<length xs]) = length (filter P xs)"
proof -
  have "filter P xs = filter P (map (\<lambda>j. xs ! j) [0..<length xs])"
    by (simp add: map_nth)
  also have "\<dots> = map (\<lambda>j. xs ! j) (filter (\<lambda>j. P (xs ! j)) [0..<length xs])"
    by (simp add: filter_map comp_def)
  finally show ?thesis by simp
qed

text \<open>
  C5. A placeholder without \<^verbatim>\<open>data-src\<close>, or with an empty one: \<open>initOne\<close> returns at once and
  leaves the whole page as it was; \<open>initAll\<close> leaves the placeholder as it was, children and
  attributes, and creates players only for the selected placeholders with a non-empty
  \<^verbatim>\<open>data-src\<close>.
\<close>

theorem initAll_skips_missing_src:
  assumes "i < length (w_cards w)"
    and "getAttribute (w_cards w ! i) ''data-src'' = None
         \<or> getAttribute (w_cards w ! i) ''data-src'' = Some []"
  shows "initOne opts i w = (None, w)
    \<and> w_cards (snd (initAll options w)) ! i = w_cards w ! i
    \<and> length (w_players (snd (initAll options w))) =
        length (w_players w)
        + length (filter (\<lambda>c. selected c \<and> getAttribute c ''data-src'' \<noteq> Some []) (w_cards w))"
proof -
  let ?sel = "filter (\<lambda>j. selected (w_cards w ! j)) [0..<length (w_cards w)]"
  have all: "initAll options w = forEach_initOne (assign_options options) ?sel w"
    by (cases "?sel") (simp_all add: initAll_def Let_def)
  have "\<not> has_src (w_cards w ! i)" using assms(2) by (auto simp: has_src_def)
  then have keep: "w_cards (snd (initAll options w)) ! i = w_cards w ! i"
    unfolding all by (rule forEach_keeps_card)
  have "length (w_players (snd (initAll options w))) =
      length (w_players w) + length (filter (\<lambda>j. has_src (w_cards w ! j)) ?sel)"
    unfolding all by (rule forEach_players) simp
  also have "filter (\<lambda>j. has_src (w_cards w ! j)) ?sel =
      filter (\<lambda>j. (\<lambda>c. selected c \<and> getAttribute c ''data-src'' \<noteq> Some []) (w_cards w ! j))
        [0..<length (w_cards w)]"
    by (auto simp: has_src_def selected_def intro: filter_cong)
  also have "length \<dots> =
      length (filter (\<lambda>c. selected c \<and> getAttribute c ''data-src'' \<noteq> Some []) (w_cards w))"
    by (rule filter_indices_length)
  finally have count: "length (w_players (snd (initAll options w))) =
      length (w_players w)
      + length (filter (\<lambda>c. selected c \<and> getAttribute c ''data-src'' \<noteq> Some []) (w_cards w))" .
  have "initOne opts i w = (None, w)" using assms(2) by (intro initOne_skip) blast
  with keep count show ?thesis by blast
qed

text \<open>A page with a placeholder without \<^verbatim>\<open>data-src\<close> and one for \<^verbatim>\<open>movie.mp4\<close>: the first
  is left as it was and one player is created.\<close>

theorem initAll_skips_missing_src_witness:
  "initOne DEFAULTS 0 (page None NoCanPlayType
       [placeholder [(''data-title'', ''No source'')], placeholder [(''data-src'', ''movie.mp4'')]])
     = (None, page None NoCanPlayType
       [placeholder [(''data-title'', ''No source'')], placeholder [(''data-src'', ''movie.mp4'')]])
   \<and> w_cards (snd (initAll None (page None NoCanPlayType
       [placeholder [(''data-title'', ''No source'')], placeholder [(''data-src'', ''movie.mp4'')]]))) ! 0
     = placeholder [(''data-title'', ''No source'')]
   \<and> length (w_players (snd (initAll None (page None NoCanPlayType
       [placeholder [(''data-title'', ''No source'')], placeholder [(''data-src'', ''movie.mp4'')]])))) = 1"
proof -
  let ?w = "page None NoCanPlayType
       [placeholder [(''data-title'', ''No source'')], placeholder [(''data-src'', ''movie.mp4'')]]"
  have h1: "0 < length (w_cards ?w)" by (simp add: page_def)
  have h2: "getAttribute (w_cards ?w ! 0) ''data-src'' = None
         \<or> getAttribute (w_cards ?w ! 0) ''data-src'' = Some []"
    by (simp add: page_def placeholder_def getAttribute_def)
  have c: "w_cards ?w ! 0 = placeholder [(''data-title'', ''No source'')]"
    and p: "length (w_players ?w) = 0"
    and n: "length (filter (\<lambda>c. selected c \<and> getAttribute c ''data-src'' \<noteq> Some []) (w_cards ?w)) = 1"
    by (simp_all add: page_def placeholder_def selected_def getAttribute_def)
  from initAll_skips_missing_src [OF h1 h2, of DEFAULTS None] show ?thesis
    unfolding c p n by simp
qed

section \<open>The quality-level hint\<close>

lemma of_char_digit_char: "d < 10 \<Longrightarrow> (of_char (digit_char d) :: nat) = 48 + d"
  by (simp add: digit_char_def of_char_of)

lemma digit_char_props:
  assumes "d < 10"
  shows "is_digit (digit_char d)" and "digit_val (digit_char d) = d"
    and "\<not> is_space (digit_char d)" and "digit_char d \<noteq> CHR ''-''" and "digit_char d \<noteq> CHR ''+''"
proof -
  note oc = of_char_digit_char [OF assms]
  show "is_digit (digit_char d)" using assms by (simp add: is_digit_def oc)
  show "digit_val (digit_char d) = d" by (simp add: digit_val_def oc)
  have "of_char c \<noteq> (48 + d :: nat)" if "is_space c" for c
    using that assms by (auto simp: is_space_def)
  with oc show "\<not> is_space (digit_char d)" by metis
  have "(of_char (CHR ''-'') :: nat) \<noteq> 48 + d" "(of_char (CHR ''+'') :: nat) \<noteq> 48 + d" by simp_all
  with oc show "digit_char d \<noteq> CHR ''-''" "digit_char d \<noteq> CHR ''+''" by metis+
qed

lemma digits_value_snoc:
  "digits_value acc (xs @ [c]) = digits_value acc xs * 10 + digit_val c"
  by (induction xs arbitrary: acc) simp_all

lemma nat_digits_props:
  "nat_digits n \<noteq> [] \<and> (\<forall>c \<in> set (nat_digits n). is_digit c) \<and> digits_value 0 (nat_digits n) = n"
proof (induction n rule: nat_digits.induct)
  case (1 n)
  show ?case
  proof (cases "n < 10")
    case True
    then show ?thesis
      by (subst (1 2 3) nat_digits.simps) (simp add: digit_char_props)
  next
    case False
    with 1 have ih: "nat_digits (n div 10) \<noteq> []"
      "\<forall>c \<in> set (nat_digits (n div 10)). is_digit c"
      "digits_value 0 (nat_digits (n div 10)) = n div 10" by simp_all
    have d: "n mod 10 < 10" by simp
    from False ih show ?thesis
      by (subst (1 2 3) nat_digits.simps)
         (simp add: digits_value_snoc digit_char_props [OF d])
  qed
qed

lemma is_digit_not_sign: "is_digit c \<Longrightarrow> \<not> is_space c \<and> c \<noteq> CHR ''-'' \<and> c \<noteq> CHR ''+''"
  by (auto simp: is_digit_def is_space_def)

text \<open>The length of the decimal numeral of a positive number.\<close>

lemma nat_digits_length:
  "0 < n \<Longrightarrow> 10 ^ (length (nat_digits n) - 1) \<le> n \<and> n < 10 ^ length (nat_digits n)"
proof (induction n rule: nat_digits.induct)
  case (1 n)
  show ?case
  proof (cases "n < 10")
    case True
    with 1(2) show ?thesis by (subst (1 2) nat_digits.simps) simp
  next
    case False
    then have pos: "0 < n div 10" by simp
    from 1(1) [OF False pos]
    have lo: "10 ^ (length (nat_digits (n div 10)) - 1) \<le> n div 10"
      and hi: "n div 10 < 10 ^ length (nat_digits (n div 10))" by simp_all
    have ne: "nat_digits (n div 10) \<noteq> []" using nat_digits_props by blast
    then have len: "0 < length (nat_digits (n div 10))" by simp
    have l: "length (nat_digits n) = Suc (length (nat_digits (n div 10)))"
      using False by (subst nat_digits.simps) simp
    have "10 ^ (length (nat_digits (n div 10)) - 1) * 10 \<le> (n div 10) * 10"
      using lo by simp
    also have "\<dots> \<le> n" by simp
    finally have a: "10 ^ length (nat_digits (n div 10)) \<le> n"
      using len by (cases "length (nat_digits (n div 10))") simp_all
    have "Suc (n div 10) \<le> 10 ^ length (nat_digits (n div 10))" using hi by simp
    then have "Suc (n div 10) * 10 \<le> 10 ^ length (nat_digits (n div 10)) * 10" by simp
    moreover have "n < Suc (n div 10) * 10" by presburger
    ultimately have b: "n < 10 ^ Suc (length (nat_digits (n div 10)))" by simp
    from a b show ?thesis unfolding l by simp
  qed
qed

lemma nat_digits_length_unique:
  assumes "10 ^ (k - 1) \<le> s" and "s < 10 ^ k" and "0 < k"
  shows "length (nat_digits s) = k"
proof -
  have pos: "0 < s" using assms(1) by (metis gr0I not_less_zero power_eq_0_iff zero_neq_numeral le_zero_eq)
  note l = nat_digits_length [OF pos]
  let ?L = "length (nat_digits s)"
  have "(10::nat) ^ (?L - 1) < 10 ^ k" using l assms(2) by linarith
  then have 1: "?L - 1 < k" by (simp add: power_strict_increasing_iff)
  have "(10::nat) ^ (k - 1) < 10 ^ ?L" using l assms(1) by linarith
  then have 2: "k - 1 < ?L" by (simp add: power_strict_increasing_iff)
  from 1 2 assms(3) show ?thesis by linarith
qed

lemma digits_value_zeros:
  "digits_value acc (ds @ replicate m (CHR ''0'')) = digits_value acc ds * 10 ^ m"
proof (induction m)
  case 0
  then show ?case by simp
next
  case (Suc m)
  have "ds @ replicate (Suc m) (CHR ''0'') = (ds @ replicate m (CHR ''0'')) @ [CHR ''0'']"
    by (simp add: replicate_append_same)
  then have "digits_value acc (ds @ replicate (Suc m) (CHR ''0'')) =
      digits_value acc (ds @ replicate m (CHR ''0'')) * 10 + digit_val (CHR ''0'')"
    by (simp only: digits_value_snoc)
  then show ?case using Suc by (simp add: digit_val_def)
qed

text \<open>An integer below \<open>2^53\<close> is a double.\<close>

lemma round_double_small:
  assumes "n < 2 ^ 53"
  shows "round_double n = Some n"
proof -
  have "low_bits n = 0" using assms by (subst low_bits.simps) simp
  then show ?thesis using assms by (simp add: round_double_def)
qed

text \<open>\<^verbatim>\<open>parseInt\<close> of a string of digits, with or without a minus sign.\<close>

lemma parseInt10_all_digits:
  assumes "ds \<noteq> []" and "\<forall>c \<in> set ds. is_digit c"
  shows "parseInt10 ds = (case round_double (digits_value 0 ds) of
            None \<Rightarrow> Infinity | Some d \<Rightarrow> Num (int d))"
proof -
  have c: "is_digit (hd ds)" using assms by (cases ds) simp_all
  have all: "takeWhile is_digit ds = ds"
    using assms by (simp add: takeWhile_eq_all_conv)
  have drop: "dropWhile is_space ds = ds"
    using is_digit_not_sign [OF c] assms(1) by (cases ds) simp_all
  show ?thesis
    using is_digit_not_sign [OF c] assms(1)
    by (simp add: parseInt10_def Let_def drop all split: option.splits)
qed

lemma parseInt10_minus_digits:
  assumes "ds \<noteq> []" and "\<forall>c \<in> set ds. is_digit c"
  shows "parseInt10 (CHR ''-'' # ds) = (case round_double (digits_value 0 ds) of
            None \<Rightarrow> MinusInfinity | Some d \<Rightarrow> Num (- int d))"
proof -
  have all: "takeWhile is_digit ds = ds"
    using assms by (simp add: takeWhile_eq_all_conv)
  have sp: "\<not> is_space (CHR ''-'')" by (simp add: is_space_def)
  show ?thesis
    using assms(1) by (simp add: parseInt10_def Let_def sp all split: option.splits)
qed

lemma closest_in: "closest x k cs = Some c \<Longrightarrow> c \<in> set cs"
  by (induction cs arbitrary: c) (auto split: option.splits if_splits)

lemma closest_some: "cs \<noteq> [] \<Longrightarrow> closest x k cs \<noteq> None"
  by (cases cs) (auto split: option.splits)

lemma digits_candidates_props:
  assumes "(s, n) \<in> set (digits_candidates x k)"
  shows "k \<le> n" and "10 ^ (k - 1) \<le> s" and "s < 10 ^ k"
    and "round_double (s * 10 ^ (n - k)) = Some x"
    and "n \<le> Suc (length (nat_digits x))"
  using assms by (auto simp: digits_candidates_def split: if_splits)

text \<open>What the search for the shortest decimal finds.\<close>

lemma shortest_digits_props:
  assumes "shortest_digits x = Some (s, n)"
  shows "0 < length (nat_digits s)" and "length (nat_digits s) \<le> n"
    and "round_double (s * 10 ^ (n - length (nat_digits s))) = Some x"
    and "n \<le> Suc (length (nat_digits x))"
proof -
  from assms obtain k where k: "find (\<lambda>k. digits_candidates x k \<noteq> []) [1..<18] = Some k"
    and c: "closest x k (digits_candidates x k) = Some (s, n)"
    by (auto simp: shortest_digits_def split: option.splits)
  from k have "k \<in> set [1..<18]" by (auto simp: find_Some_iff)
  then have k0: "0 < k" by simp
  note p = digits_candidates_props [OF closest_in [OF c]]
  have len: "length (nat_digits s) = k"
    using p(2,3) k0 by (rule nat_digits_length_unique)
  show "0 < length (nat_digits s)" using len k0 by simp
  show "length (nat_digits s) \<le> n" using len p(1) by simp
  show "round_double (s * 10 ^ (n - length (nat_digits s))) = Some x" using len p(4) by simp
  show "n \<le> Suc (length (nat_digits x))" by (rule p(5))
qed

lemma digits_candidates_self:
  assumes "0 < x" and "round_double x = Some x"
  shows "(x, length (nat_digits x)) \<in> set (digits_candidates x (length (nat_digits x)))"
  using nat_digits_length [OF assms(1)] assms(2) by (simp add: digits_candidates_def)

lemma shortest_digits_small:
  assumes "0 < x" and "x < 2 ^ 53"
  shows "\<exists>s n. shortest_digits x = Some (s, n) \<and> n \<le> 21"
proof -
  let ?L = "length (nat_digits x)"
  note l = nat_digits_length [OF assms(1)]
  have "(10::nat) ^ (?L - 1) < 10 ^ 16" using l assms(2) by simp
  then have "?L - 1 < 16" by (simp only: power_strict_increasing_iff)
  moreover have "0 < ?L" using nat_digits_props [of x] by simp
  ultimately have "1 \<le> ?L \<and> ?L < 18" by linarith
  then have L: "?L \<in> set [1..<18]" by simp
  have "digits_candidates x ?L \<noteq> []"
    using digits_candidates_self [OF assms(1) round_double_small [OF assms(2)]] by auto
  with L have "find (\<lambda>k. digits_candidates x k \<noteq> []) [1..<18] \<noteq> None"
    unfolding find_None_iff by blast
  then obtain k where k: "find (\<lambda>k. digits_candidates x k \<noteq> []) [1..<18] = Some k" by blast
  then have "digits_candidates x k \<noteq> []" by (auto simp: find_Some_iff)
  then obtain c where "closest x k (digits_candidates x k) = Some c"
    using closest_some by blast
  with k have s: "shortest_digits x = Some (fst c, snd c)" by (simp add: shortest_digits_def)
  from shortest_digits_props(4) [OF s] have "snd c \<le> Suc ?L" .
  with \<open>?L - 1 < 16\<close> have "snd c \<le> 21" by simp
  with s show ?thesis by blast
qed

text \<open>Below \<open>10^21\<close> a number is printed as a decimal numeral that \<^verbatim>\<open>parseInt\<close> reads back
  to the same number.\<close>

lemma parseInt10_nat_ToString:
  assumes "0 < x" and "shortest_digits x = Some (s, n)" and "n \<le> 21"
  shows "nat_ToString x = nat_digits s @ replicate (n - length (nat_digits s)) (CHR ''0'')"
    and "parseInt10 (nat_ToString x) = Num (int x)"
    and "parseInt10 (CHR ''-'' # nat_ToString x) = Num (- int x)"
proof -
  let ?ds = "nat_digits s @ replicate (n - length (nat_digits s)) (CHR ''0'')"
  note p = shortest_digits_props [OF assms(2)]
  show str: "nat_ToString x = ?ds"
    using assms by (simp add: nat_ToString_def Let_def)
  have z: "is_digit (CHR ''0'')" by (simp add: is_digit_def)
  have ne: "?ds \<noteq> []" using nat_digits_props [of s] by simp
  have all: "\<forall>c \<in> set ?ds. is_digit c" using nat_digits_props [of s] z by auto
  have val: "digits_value 0 ?ds = s * 10 ^ (n - length (nat_digits s))"
    using nat_digits_props [of s] by (simp add: digits_value_zeros)
  show "parseInt10 (nat_ToString x) = Num (int x)"
    unfolding str parseInt10_all_digits [OF ne all] val p(3) by simp
  show "parseInt10 (CHR ''-'' # nat_ToString x) = Num (- int x)"
    unfolding str parseInt10_minus_digits [OF ne all] val p(3) by simp
qed

text \<open>From \<open>10^21\<close> on a number is printed with an exponent, and \<^verbatim>\<open>parseInt\<close> reads its
  first digit only.\<close>

lemma parseInt10_nat_ToString_exponent:
  assumes "0 < x" and "shortest_digits x = Some (s, n)" and "21 < n"
  shows "nat_ToString x =
           hd (nat_digits s) # (if length (nat_digits s) = 1 then [] else CHR ''.'' # tl (nat_digits s))
             @ ''e+'' @ nat_digits (n - 1)"
    and "parseInt10 (nat_ToString x) = Num (int (digit_val (hd (nat_digits s))))"
    and "parseInt10 (CHR ''-'' # nat_ToString x) = Num (- int (digit_val (hd (nat_digits s))))"
proof -
  let ?d = "hd (nat_digits s)"
  let ?rest = "(if length (nat_digits s) = 1 then [] else CHR ''.'' # tl (nat_digits s))
             @ ''e+'' @ nat_digits (n - 1)"
  show str: "nat_ToString x = ?d # ?rest"
    using assms by (simp add: nat_ToString_def Let_def)
  have d: "is_digit ?d" using nat_digits_props [of s] by (cases "nat_digits s") simp_all
  have nd: "\<not> is_digit (hd ?rest)" by (simp add: is_digit_def)
  have rest: "?rest \<noteq> []" by simp
  have tw: "takeWhile is_digit (?d # ?rest) = [?d]"
    using d nd rest by (cases ?rest) simp_all
  have "digit_val ?d < 10" using d by (auto simp: is_digit_def digit_val_def)
  then have r: "round_double (digit_val ?d) = Some (digit_val ?d)"
    by (intro round_double_small) simp
  note s = is_digit_not_sign [OF d]
  show "parseInt10 (nat_ToString x) = Num (int (digit_val ?d))"
    unfolding str using s tw r
    by (simp add: parseInt10_def Let_def del: takeWhile.simps)
  have sp: "\<not> is_space (CHR ''-'')" by (simp add: is_space_def)
  show "parseInt10 (CHR ''-'' # nat_ToString x) = Num (- int (digit_val ?d))"
    unfolding str using sp tw r
    by (simp add: parseInt10_def Let_def del: takeWhile.simps)
qed

lemma parseInt10_zero: "parseInt10 ''0'' = Num 0"
proof -
  have z: "is_digit (CHR ''0'')" by (simp add: is_digit_def)
  have "round_double 0 = Some 0" by (rule round_double_small) simp
  moreover have "digits_value 0 ''0'' = 0" by (simp add: digit_val_def)
  ultimately show ?thesis
    using z parseInt10_all_digits [of "''0''"] by simp
qed

text \<open>\<^verbatim>\<open>parseInt(hint, 10)\<close> is the hint itself for every integer of magnitude below \<open>2^53\<close>.\<close>

lemma parseInt_hint_safe_integer:
  assumes "\<bar>n\<bar> < 2 ^ 53"
  shows "parseInt_hint (Number (Num n)) = Num n"
proof -
  consider "n = 0" | "0 < n" | "n < 0" by linarith
  then show ?thesis
  proof cases
    case 1
    then show ?thesis by (simp add: nat_ToString_def parseInt10_zero)
  next
    case 2
    define x where "x = nat n"
    have pos: "0 < x" and nx: "int x = n" using 2 by (simp_all add: x_def)
    have "int x < 2 ^ 53" using assms 2 nx by simp
    then have "x < 2 ^ 53" by (metis of_nat_less_iff of_nat_numeral of_nat_power)
    from shortest_digits_small [OF pos this]
    obtain s m where s: "shortest_digits x = Some (s, m)" and m: "m \<le> 21" by blast
    have "parseInt10 (nat_ToString x) = Num (int x)"
      by (rule parseInt10_nat_ToString(2) [OF pos s m])
    then show ?thesis using 2 unfolding nx x_def by simp
  next
    case 3
    define x where "x = nat (- n)"
    have pos: "0 < x" and nx: "- int x = n" using 3 by (simp_all add: x_def)
    have "int x < 2 ^ 53" using assms 3 nx by simp
    then have "x < 2 ^ 53" by (metis of_nat_less_iff of_nat_numeral of_nat_power)
    from shortest_digits_small [OF pos this]
    obtain s m where s: "shortest_digits x = Some (s, m)" and m: "m \<le> 21" by blast
    have "parseInt10 (CHR ''-'' # nat_ToString x) = Num (- int x)"
      by (rule parseInt10_nat_ToString(3) [OF pos s m])
    then show ?thesis using 3 unfolding nx x_def by simp
  qed
qed

text \<open>The number \<open>10^21\<close>: it is a double, the decimal \<^verbatim>\<open>1e+21\<close> is the shortest that
  identifies it, and \<^verbatim>\<open>parseInt\<close> makes 1 of it.\<close>

lemma round_double_1e21: "round_double 1000000000000000000000 = Some 1000000000000000000000"
proof -
  have "low_bits 1000000000000000000000 = 17" by (simp add: low_bits.simps)
  then show ?thesis by (simp add: round_double_def)
qed

lemma round_double_others:
  "round_double 2000000000000000000000 \<noteq> Some 1000000000000000000000"
  "round_double 10000000000000000000000 \<noteq> Some 1000000000000000000000"
proof -
  have "low_bits 2000000000000000000000 = 18" by (simp add: low_bits.simps)
  then show "round_double 2000000000000000000000 \<noteq> Some 1000000000000000000000"
    by (simp add: round_double_def)
  have "low_bits 10000000000000000000000 = 21" by (simp add: low_bits.simps)
  then show "round_double 10000000000000000000000 \<noteq> Some 1000000000000000000000"
    by (simp add: round_double_def)
qed

lemma nat_digits_1e21: "length (nat_digits 1000000000000000000000) = 22"
  by (simp add: nat_digits.simps)

lemma shortest_digits_1e21: "shortest_digits 1000000000000000000000 = Some (1, 22)"
proof -
  have c: "digits_candidates 1000000000000000000000 1 = [(1, 22)]"
    by (simp add: digits_candidates_def nat_digits_1e21 round_double_1e21 round_double_others)
  have "[1..<18] = 1 # [2..<18]" by (simp add: upt_rec)
  then have "find (\<lambda>k. digits_candidates 1000000000000000000000 k \<noteq> []) [1..<18] = Some 1"
    using c by simp
  then show ?thesis using c by (simp add: shortest_digits_def decimal_distance_def)
qed

lemma num_ToString_1e21: "num_ToString (Num 1000000000000000000000) = ''1e+21''"
proof -
  have "nat_digits 1 = ''1''" "nat_digits 21 = ''21''"
    by code_simp+
  then show ?thesis
    using parseInt10_nat_ToString_exponent(1) [OF _ shortest_digits_1e21] by simp
qed

lemma parseInt_hint_1e21: "parseInt_hint (Number (Num 1000000000000000000000)) = Num 1"
proof -
  have "nat_digits 1 = ''1''" by code_simp
  then have "digit_val (hd (nat_digits 1)) = 1" by (simp add: digit_val_def)
  then show ?thesis
    using parseInt10_nat_ToString_exponent(2) [OF _ shortest_digits_1e21] by simp
qed

lemma parseInt10_1e21: "parseInt10 ''1000000000000000000000'' = Num 1000000000000000000000"
proof -
  have v: "digits_value 0 ''1000000000000000000000'' = 1000000000000000000000"
    by (simp add: digit_val_def)
  have d: "\<forall>c \<in> set ''1000000000000000000000''. is_digit c" by (simp add: is_digit_def)
  show ?thesis
    using parseInt10_all_digits [OF _ d] by (simp only: v round_double_1e21) simp
qed

lemma parseInt10_2_53: "parseInt10 ''9007199254740993'' = Num 9007199254740992"
proof -
  have v: "digits_value 0 ''9007199254740993'' = 9007199254740993"
    by (simp add: digit_val_def)
  have d: "\<forall>c \<in> set ''9007199254740993''. is_digit c" by (simp add: is_digit_def)
  have "low_bits 9007199254740993 = 1" by (simp add: low_bits.simps)
  then have r: "round_double 9007199254740993 = Some 9007199254740992"
    by (simp add: round_double_def)
  show ?thesis
    using parseInt10_all_digits [OF _ d] by (simp only: v r) simp
qed

text \<open>A numeral of 310 digits is beyond the largest double: \<^verbatim>\<open>parseInt\<close> makes an infinity of
  it, and of an infinity, which is printed as a word, NaN.\<close>

lemma parseInt10_overflow: "parseInt10 (CHR ''1'' # replicate 309 (CHR ''0'')) = Infinity"
proof -
  have v: "digits_value 0 (''1'' @ replicate 309 (CHR ''0'')) = 10 ^ 309"
    unfolding digits_value_zeros by (simp add: digit_val_def)
  have "low_bits (10 ^ 309) = 974" by (simp add: low_bits.simps)
  then have r: "round_double (10 ^ 309) = None" by (simp add: round_double_def)
  have d: "\<forall>c \<in> set (''1'' @ replicate 309 (CHR ''0'')). is_digit c" by (simp add: is_digit_def)
  have "parseInt10 (''1'' @ replicate 309 (CHR ''0'')) = Infinity"
    using parseInt10_all_digits [OF _ d] by (simp only: v r) simp
  then show ?thesis by simp
qed

lemma parseInt_hint_Infinity:
  "hint_supplied (Number Infinity) \<and> parseInt_hint (Number Infinity) = NaN"
  by (simp add: hint_supplied_def parseInt10_def is_space_def is_digit_def)

text \<open>The result of rounding is a double: rounding it again changes nothing. So every
  number that \<^verbatim>\<open>parseInt\<close> returns is a double.\<close>

lemma low_bits_div:
  "n div 2 ^ low_bits n < 2 ^ 53 \<and> (0 < low_bits n \<longrightarrow> 2 ^ 52 \<le> n div 2 ^ low_bits n)"
proof (induction n rule: low_bits.induct)
  case (1 n)
  show ?case
  proof (cases "n < 2 ^ 53")
    case True
    then have "low_bits n = 0" by (subst low_bits.simps) simp
    with True show ?thesis by simp
  next
    case False
    let ?e = "low_bits (n div 2)"
    have e: "low_bits n = Suc ?e" using False by (subst low_bits.simps) simp
    have d: "n div 2 ^ Suc ?e = (n div 2) div 2 ^ ?e" by (simp add: div_mult2_eq)
    from 1 [OF False] have ih: "n div 2 div 2 ^ ?e < 2 ^ 53"
      "0 < ?e \<longrightarrow> 2 ^ 52 \<le> n div 2 div 2 ^ ?e" by simp_all
    have "2 ^ 52 \<le> n div 2 div 2 ^ ?e"
    proof (cases "?e = 0")
      case True
      with False show ?thesis by simp
    next
      case False
      with ih(2) show ?thesis by simp
    qed
    with ih(1) show ?thesis unfolding e d by simp
  qed
qed

lemma low_bits_shift:
  assumes "2 ^ 52 \<le> m" and "m < 2 ^ 53"
  shows "low_bits (m * 2 ^ e) = e"
proof (induction e)
  case 0
  then show ?case using assms(2) by (subst low_bits.simps) simp
next
  case (Suc e)
  have "(2::nat) ^ 53 = 2 ^ 52 * 2 ^ Suc 0" by simp
  also have "\<dots> \<le> m * 2 ^ Suc 0" using assms(1) by (intro mult_le_mono1)
  also have "\<dots> \<le> m * 2 ^ Suc e" by (intro mult_le_mono2 power_increasing) simp_all
  finally have big: "\<not> m * 2 ^ Suc e < 2 ^ 53" by simp
  have "m * 2 ^ Suc e div 2 = m * 2 ^ e" by simp
  with big Suc show ?case by (subst low_bits.simps) simp
qed

lemma round_double_exact:
  assumes "m \<le> 2 ^ 53" and "m * 2 ^ e < 2 ^ 1024"
  shows "round_double (m * 2 ^ e) = Some (m * 2 ^ e)"
proof -
  have shifted: "round_double (k * 2 ^ e) = Some (k * 2 ^ e)"
    if "2 ^ 52 \<le> k" and "k < 2 ^ 53" and "k * 2 ^ e < 2 ^ 1024" for k e :: nat
  proof -
    have "low_bits (k * 2 ^ e) = e" using that(1,2) by (rule low_bits_shift)
    then show ?thesis using that(3) by (simp add: round_double_def)
  qed
  consider "m * 2 ^ e < 2 ^ 53" | "2 ^ 53 \<le> m * 2 ^ e" "m < 2 ^ 53" | "m = 2 ^ 53"
    using assms(1) by linarith
  then show ?thesis
  proof cases
    case 1
    then show ?thesis by (rule round_double_small)
  next
    case 2
    define f where "f = low_bits (m * 2 ^ e)"
    have lb: "m * 2 ^ e div 2 ^ f < 2 ^ 53"
      "0 < f \<longrightarrow> 2 ^ 52 \<le> m * 2 ^ e div 2 ^ f"
      using low_bits_div [of "m * 2 ^ e"] by (simp_all add: f_def)
    have pos: "0 < f" unfolding f_def using 2(1) by (subst low_bits.simps) simp
    have fe: "f \<le> e"
    proof (rule ccontr)
      assume "\<not> f \<le> e"
      then have "Suc e \<le> f" by simp
      then have "(2::nat) ^ Suc e \<le> 2 ^ f" by (intro power_increasing) simp_all
      then have "m * 2 ^ e div 2 ^ f \<le> m * 2 ^ e div 2 ^ Suc e" by (intro div_le_mono2) simp_all
      also have "\<dots> = m * 2 ^ e div (2 ^ e * 2)" by simp
      also have "\<dots> = m * 2 ^ e div 2 ^ e div 2" by (rule div_mult2_eq)
      also have "\<dots> = m div 2" by simp
      also have "\<dots> < 2 ^ 52" using 2(2) by simp
      finally show False using lb pos by simp
    qed
    define k where "k = m * 2 ^ (e - f)"
    have n: "m * 2 ^ e = k * 2 ^ f"
      using fe by (simp add: k_def power_add [symmetric])
    have "k * 2 ^ f div 2 ^ f = k" by simp
    with lb pos have "2 ^ 52 \<le> k" "k < 2 ^ 53" unfolding n by simp_all
    moreover have "k * 2 ^ f < 2 ^ 1024" using assms(2) unfolding n .
    ultimately have "round_double (k * 2 ^ f) = Some (k * 2 ^ f)" by (rule shifted)
    then show ?thesis unfolding n .
  next
    case 3
    have "m * 2 ^ e = 2 ^ 52 * 2 ^ Suc e" unfolding 3 by simp
    moreover have "round_double (2 ^ 52 * 2 ^ Suc e) = Some (2 ^ 52 * 2 ^ Suc e)"
    proof (rule shifted)
      show "(2::nat) ^ 52 * 2 ^ Suc e < 2 ^ 1024" using assms(2) unfolding 3 by simp
    qed simp_all
    ultimately show ?thesis by simp
  qed
qed

lemma round_double_idem:
  assumes "round_double n = Some d"
  shows "round_double d = Some d"
proof -
  define e where "e = low_bits n"
  define q where "q = n div 2 ^ e"
  define m where "m = (if 2 ^ e < 2 * (n mod 2 ^ e) \<or> (2 * (n mod 2 ^ e) = 2 ^ e \<and> odd q)
                       then q + 1 else q)"
  from assms have d: "d = m * 2 ^ e" and lt: "m * 2 ^ e < 2 ^ 1024"
    by (auto simp: round_double_def Let_def e_def q_def m_def split: if_splits)
  have "q < 2 ^ 53" using low_bits_div [of n] by (simp add: q_def e_def)
  then have "m \<le> 2 ^ 53" by (simp add: m_def)
  from round_double_exact [OF this lt] show ?thesis unfolding d .
qed

lemma parseInt10_double:
  assumes "parseInt10 s = Num n"
  shows "round_double (nat \<bar>n\<bar>) = Some (nat \<bar>n\<bar>)"
proof -
  from assms obtain z d where r: "round_double (digits_value 0 z) = Some d"
    and n: "n = int d \<or> n = - int d"
    by (auto simp: parseInt10_def Let_def split: if_splits option.splits)
  from n have "nat \<bar>n\<bar> = d" by auto
  with round_double_idem [OF r] show ?thesis by simp
qed

lemma hint_supplied_iff: "hint_supplied h \<longleftrightarrow> (\<exists>x. h = Number x \<and> x \<noteq> NaN)"
  by (cases h) (simp_all add: hint_supplied_def)

lemma decoder_op_last:
  "w_decoders w = ds @ [ops] \<Longrightarrow> w_decoders (decoder_op x w) = ds @ [ops @ [x]]"
  by (simp add: decoder_op_def)

lemma hls_call_decoders:
  assumes "w_decoders w = ds @ [ops]"
  shows "w_decoders (snd (hls_call outcome x w)) = ds @ [if outcome = None then ops @ [x] else ops]"
    and "fst (hls_call outcome x w) = outcome"
  using assms by (auto simp: hls_call_def decoder_op_last split: option.splits)

lemma attachHls_decoder_ops:
  assumes "construct lib = None"
  shows "\<exists>ops. w_decoders (snd (attachHls_decoder lib pid src h w)) = w_decoders w @ [ops]
           \<and> prefix ops (decoder_script pid src h)
           \<and> ((\<forall>x. set_startLevel lib x = None) \<and> set_autoLevelEnabled lib = None
                \<and> (\<forall>s. loadSource lib s = None) \<and> attachMedia lib = None
               \<longrightarrow> ops = decoder_script pid src h)"
proof -
  let ?w1 = "w\<lparr>w_decoders := w_decoders w @ [[]]\<rparr>"
  have d1: "w_decoders ?w1 = w_decoders w @ [[]]" by simp
  show ?thesis
  proof (cases "hint_supplied h")
    case False
    show ?thesis
      using assms False
      by (cases "loadSource lib src"; cases "attachMedia lib")
         (auto simp: attachHls_decoder_def new_Hls_def andThen_def hls_call_def decoder_op_def
             decoder_script_def)
  next
    case True
    show ?thesis
      using assms True
      by (cases "set_startLevel lib (parseInt_hint h)"; cases "set_autoLevelEnabled lib";
          cases "loadSource lib src"; cases "attachMedia lib")
         (auto simp: attachHls_decoder_def new_Hls_def andThen_def hls_call_def decoder_op_def
             decoder_script_def)
  qed
qed

text \<open>
  \<open>attachHls\<close> with the decoder library present, reporting support, and its constructor
  returning: the operations on the new decoder are, in this order, the assignment of
  \<^verbatim>\<open>startLevel\<close> and of \<^verbatim>\<open>autoLevelEnabled = false\<close> if and only if the hint is defined, not
  null and not NaN, then \<^verbatim>\<open>loadSource\<close> and \<^verbatim>\<open>attachMedia\<close>; an operation that throws ends
  the sequence there. The value assigned to \<^verbatim>\<open>startLevel\<close> is \<^verbatim>\<open>parseInt(hint, 10)\<close>.
\<close>

lemma attachHls_decoder_operations:
  assumes "w_Hls w = Some lib" and "isSupported lib = Inr True" and "construct lib = None"
  shows "\<exists>ops. w_decoders (snd (attachHls pid src h w)) = w_decoders w @ [ops]
     \<and> prefix ops ((if hint_supplied h
                     then [SetStartLevel (parseInt_hint h), SetAutoLevelEnabled False] else [])
                    @ [LoadSource src, AttachMedia pid])
     \<and> ((\<forall>x. set_startLevel lib x = None) \<and> set_autoLevelEnabled lib = None
          \<and> (\<forall>s. loadSource lib s = None) \<and> attachMedia lib = None
         \<longrightarrow> ops = (if hint_supplied h
                     then [SetStartLevel (parseInt_hint h), SetAutoLevelEnabled False] else [])
                    @ [LoadSource src, AttachMedia pid])
     \<and> (hint_supplied h \<longleftrightarrow> h \<noteq> Undefined \<and> h \<noteq> Null \<and> h \<noteq> Number NaN)"
proof -
  let ?w0 = "log_event (AttachHlsCall pid) w"
  obtain r w' where d: "attachHls_decoder lib pid src h ?w0 = (r, w')"
    by (cases "attachHls_decoder lib pid src h ?w0")
  have tr: "attachHls_try pid src h ?w0 = (r, w')"
    using assms d by (simp add: attachHls_try_def)
  have dec: "w_decoders (snd (attachHls pid src h w)) = w_decoders w'"
    by (cases r) (simp_all add: attachHls_def tr)
  from attachHls_decoder_ops [OF assms(3), of pid src h ?w0]
  obtain ops where "w_decoders w' = w_decoders w @ [ops]"
    and "prefix ops (decoder_script pid src h)"
    and "(\<forall>x. set_startLevel lib x = None) \<and> set_autoLevelEnabled lib = None
                \<and> (\<forall>s. loadSource lib s = None) \<and> attachMedia lib = None
               \<longrightarrow> ops = decoder_script pid src h"
    by (auto simp: d)
  moreover have "hint_supplied h \<longleftrightarrow> h \<noteq> Undefined \<and> h \<noteq> Null \<and> h \<noteq> Number NaN"
    by (simp add: hint_supplied_def)
  ultimately show ?thesis unfolding dec decoder_script_def by blast
qed

text \<open>With a decoder library whose operations return: the hint 2 pins the level 2 before
  the source is loaded, the hint \<^verbatim>\<open>null\<close> sets neither property.\<close>

lemma attachHls_decoder_operations_example:
  "w_decoders (snd (attachHls 0 ''stream.m3u8'' (Number (Num 2))
       (snd (initOne DEFAULTS 0 (page (Some working_hls) NoCanPlayType
          [placeholder [(''data-src'', ''stream.m3u8''), (''data-lazy'', ''1'')]]))))) =
     [[SetStartLevel (Num 2), SetAutoLevelEnabled False, LoadSource ''stream.m3u8'', AttachMedia 0]]
   \<and> w_decoders (snd (attachHls 0 ''stream.m3u8'' Null
       (snd (initOne DEFAULTS 0 (page (Some working_hls) NoCanPlayType
          [placeholder [(''data-src'', ''stream.m3u8''), (''data-lazy'', ''1'')]]))))) =
     [[LoadSource ''stream.m3u8'', AttachMedia 0]]"
proof -
  let ?w = "snd (initOne DEFAULTS 0 (page (Some working_hls) NoCanPlayType
          [placeholder [(''data-src'', ''stream.m3u8''), (''data-lazy'', ''1'')]]))"
  have h1: "w_Hls ?w = Some working_hls" by (simp add: eval_defs)
  have h2: "isSupported working_hls = Inr True" and h3: "construct working_hls = None"
    by (simp_all add: working_hls_def)
  have ok: "(\<forall>x. set_startLevel working_hls x = None) \<and> set_autoLevelEnabled working_hls = None
          \<and> (\<forall>s. loadSource working_hls s = None) \<and> attachMedia working_hls = None"
    by (simp add: working_hls_def)
  have d0: "w_decoders ?w = []" by (simp add: eval_defs)
  have a: "hint_supplied (Number (Num 2))" and b: "\<not> hint_supplied Null"
    by (simp_all add: hint_supplied_def)
  have n: "parseInt_hint (Number (Num 2)) = Num 2"
    by (rule parseInt_hint_safe_integer) simp
  from attachHls_decoder_operations [OF h1 h2 h3, of 0 "''stream.m3u8''" "Number (Num 2)"] ok a
  have 1: "w_decoders (snd (attachHls 0 ''stream.m3u8'' (Number (Num 2)) ?w)) =
     [[SetStartLevel (Num 2), SetAutoLevelEnabled False, LoadSource ''stream.m3u8'', AttachMedia 0]]"
    unfolding d0 n by auto
  from attachHls_decoder_operations [OF h1 h2 h3, of 0 "''stream.m3u8''" Null] ok b
  have 2: "w_decoders (snd (attachHls 0 ''stream.m3u8'' Null ?w)) =
     [[LoadSource ''stream.m3u8'', AttachMedia 0]]"
    unfolding d0 by auto
  from 1 2 show ?thesis by blast
qed

text \<open>
  C7. The placeholder with \<^verbatim>\<open>data-src="stream.m3u8"\<close> and
  \<^verbatim>\<open>data-startlevel="1000000000000000000000"\<close>, with the decoder library present and
  reporting support. \<open>initOne\<close> parses the attribute to the number \<open>10^21\<close>, which passes the
  guard of \<open>attachHls\<close> (defined, not null, not NaN); the two properties are set before
  \<^verbatim>\<open>loadSource\<close> and \<^verbatim>\<open>attachMedia\<close>, but \<^verbatim>\<open>startLevel\<close> is set to 1 and not to the integer
  value of the hint: \<^verbatim>\<open>parseInt(startLevel, 10)\<close> first prints the number, as
  \<^verbatim>\<open>1e+21\<close>, and reads the digits before the \<^verbatim>\<open>e\<close>. With \<^verbatim>\<open>data-startlevel="2"\<close> the
  property is set to 2.
\<close>

theorem startLevel_exponent_hint:
  "card_startLevel (placeholder [(''data-src'', ''stream.m3u8''),
        (''data-startlevel'', ''1000000000000000000000'')]) = Number (Num 1000000000000000000000)
   \<and> hint_supplied (Number (Num 1000000000000000000000))
   \<and> num_ToString (Num 1000000000000000000000) = ''1e+21''
   \<and> w_decoders (snd (initOne DEFAULTS 0 (page (Some working_hls) NoCanPlayType
        [placeholder [(''data-src'', ''stream.m3u8''),
           (''data-startlevel'', ''1000000000000000000000'')]]))) =
       [[SetStartLevel (Num 1), SetAutoLevelEnabled False,
         LoadSource ''stream.m3u8'', AttachMedia 0]]
   \<and> w_decoders (snd (initOne DEFAULTS 0 (page (Some working_hls) NoCanPlayType
        [placeholder [(''data-src'', ''stream.m3u8''), (''data-startlevel'', ''2'')]]))) =
       [[SetStartLevel (Num 2), SetAutoLevelEnabled False,
         LoadSource ''stream.m3u8'', AttachMedia 0]]"
proof -
  have p2: "parseInt10 ''2'' = Num 2"
  proof -
    have r: "round_double 2 = Some 2" by (rule round_double_small) simp
    have v: "digits_value 0 ''2'' = 2" by (simp add: digit_val_def)
    have d: "\<forall>c \<in> set ''2''. is_digit c" by (simp add: is_digit_def)
    show ?thesis using parseInt10_all_digits [OF _ d] by (simp only: v r) simp
  qed
  have h2: "parseInt_hint (Number (Num 2)) = Num 2"
    by (rule parseInt_hint_safe_integer) simp
  have "card_startLevel (placeholder [(''data-src'', ''stream.m3u8''),
        (''data-startlevel'', ''1000000000000000000000'')]) = Number (Num 1000000000000000000000)"
    by (simp add: card_startLevel_def placeholder_def getAttribute_def parseInt10_1e21)
  moreover have "hint_supplied (Number (Num 1000000000000000000000))"
    by (simp add: hint_supplied_def)
  moreover note num_ToString_1e21
  moreover have "w_decoders (snd (initOne DEFAULTS 0 (page (Some working_hls) NoCanPlayType
        [placeholder [(''data-src'', ''stream.m3u8''),
           (''data-startlevel'', ''1000000000000000000000'')]]))) =
       [[SetStartLevel (Num 1), SetAutoLevelEnabled False,
         LoadSource ''stream.m3u8'', AttachMedia 0]]"
    by (simp add: eval_defs parseInt10_1e21 parseInt_hint_1e21 del: parseInt_hint.simps)
  moreover have "w_decoders (snd (initOne DEFAULTS 0 (page (Some working_hls) NoCanPlayType
        [placeholder [(''data-src'', ''stream.m3u8''), (''data-startlevel'', ''2'')]]))) =
       [[SetStartLevel (Num 2), SetAutoLevelEnabled False,
         LoadSource ''stream.m3u8'', AttachMedia 0]]"
    by (simp add: eval_defs p2 h2 del: parseInt_hint.simps)
  ultimately show ?thesis by blast
qed

text \<open>
  C8. \<open>attachHls\<close> returns normally on every input: an exception thrown inside its
  \<^verbatim>\<open>try\<close> (by the support query, the constructor, an assignment to the decoder,
  \<^verbatim>\<open>loadSource\<close>, \<^verbatim>\<open>attachMedia\<close>, \<^verbatim>\<open>canPlayType\<close> or the assignment of \<^verbatim>\<open>src\<close>) is logged
  with \<^verbatim>\<open>console.error\<close>. When the decoder is absent or reports no support and the video
  reports no native support, the function logs the warning and changes nothing else.
\<close>

theorem attachHls_never_throws:
  "fst (attachHls pid src h w) = None
   \<and> (\<forall>e w'. attachHls_try pid src h (log_event (AttachHlsCall pid) w) = (Some e, w')
        \<longrightarrow> snd (attachHls pid src h w) = console_error ''vd-card attachHls error:'' e w')
   \<and> ((w_Hls w = None \<or> (\<exists>lib. w_Hls w = Some lib \<and> isSupported lib = Inr False))
        \<and> (v_canPlayType (video_of w pid) = NoCanPlayType
             \<or> v_canPlayType (video_of w pid) = CanPlayAnswers [])
       \<longrightarrow> snd (attachHls pid src h w) =
             console_warn ''No HLS support in this browser.'' (log_event (AttachHlsCall pid) w))"
proof -
  have "fst (attachHls pid src h w) = None"
    by (simp add: attachHls_def split: prod.splits option.splits)
  moreover have "\<forall>e w'. attachHls_try pid src h (log_event (AttachHlsCall pid) w) = (Some e, w')
        \<longrightarrow> snd (attachHls pid src h w) = console_error ''vd-card attachHls error:'' e w'"
    by (simp add: attachHls_def)
  moreover have "snd (attachHls pid src h w) =
             console_warn ''No HLS support in this browser.'' (log_event (AttachHlsCall pid) w)"
    if "w_Hls w = None \<or> (\<exists>lib. w_Hls w = Some lib \<and> isSupported lib = Inr False)"
      and "v_canPlayType (video_of w pid) = NoCanPlayType
             \<or> v_canPlayType (video_of w pid) = CanPlayAnswers []"
  proof -
    have "attachHls_native pid src (log_event (AttachHlsCall pid) w) =
        (None, console_warn ''No HLS support in this browser.'' (log_event (AttachHlsCall pid) w))"
      using that(2) by (auto simp: attachHls_native_def)
    moreover have "attachHls_try pid src h (log_event (AttachHlsCall pid) w) =
        attachHls_native pid src (log_event (AttachHlsCall pid) w)"
      using that(1) by (auto simp: attachHls_try_def)
    ultimately show ?thesis by (simp add: attachHls_def)
  qed
  ultimately show ?thesis by blast
qed

text \<open>With a decoder library whose \<^verbatim>\<open>loadSource\<close> throws, \<open>attachHls\<close> returns and the
  exception is on the console; without decoder and without native support, the warning is
  on the console, no decoder exists and the video has no \<^verbatim>\<open>src\<close>.\<close>

theorem attachHls_never_throws_witness:
  "fst (attachHls 0 ''stream.m3u8'' Null
       (snd (initOne DEFAULTS 0 (page (Some failing_hls) NoCanPlayType
          [placeholder [(''data-src'', ''stream.m3u8''), (''data-lazy'', ''1'')]])))) = None
   \<and> w_console (snd (attachHls 0 ''stream.m3u8'' Null
       (snd (initOne DEFAULTS 0 (page (Some failing_hls) NoCanPlayType
          [placeholder [(''data-src'', ''stream.m3u8''), (''data-lazy'', ''1'')]]))))) =
       [Error ''vd-card attachHls error:'' (Exn ''manifest'')]
   \<and> w_console (snd (attachHls 0 ''stream.m3u8'' Null
       (snd (initOne DEFAULTS 0 (page None NoCanPlayType
          [placeholder [(''data-src'', ''stream.m3u8''), (''data-lazy'', ''1'')]]))))) =
       [Warn ''No HLS support in this browser.'']
   \<and> w_decoders (snd (attachHls 0 ''stream.m3u8'' Null
       (snd (initOne DEFAULTS 0 (page None NoCanPlayType
          [placeholder [(''data-src'', ''stream.m3u8''), (''data-lazy'', ''1'')]]))))) = []
   \<and> v_src (video_of (snd (attachHls 0 ''stream.m3u8'' Null
       (snd (initOne DEFAULTS 0 (page None NoCanPlayType
          [placeholder [(''data-src'', ''stream.m3u8''), (''data-lazy'', ''1'')]]))))) 0) = None"
proof -
  let ?f = "snd (initOne DEFAULTS 0 (page (Some failing_hls) NoCanPlayType
          [placeholder [(''data-src'', ''stream.m3u8''), (''data-lazy'', ''1'')]]))"
  let ?n = "snd (initOne DEFAULTS 0 (page None NoCanPlayType
          [placeholder [(''data-src'', ''stream.m3u8''), (''data-lazy'', ''1'')]]))"
  note t = attachHls_never_throws [of 0 "''stream.m3u8''" Null]
  have thrown: "fst (attachHls_try 0 ''stream.m3u8'' Null (log_event (AttachHlsCall 0) ?f))
      = Some (Exn ''manifest'')"
    and con: "w_console (snd (attachHls_try 0 ''stream.m3u8'' Null (log_event (AttachHlsCall 0) ?f))) = []"
    by (simp_all add: eval_defs failing_hls_def)
  obtain w' where tr: "attachHls_try 0 ''stream.m3u8'' Null (log_event (AttachHlsCall 0) ?f)
      = (Some (Exn ''manifest''), w')"
    using thrown by (cases "attachHls_try 0 ''stream.m3u8'' Null (log_event (AttachHlsCall 0) ?f)") simp
  with con have con': "w_console w' = []" by simp
  from t [of ?f] tr have "snd (attachHls 0 ''stream.m3u8'' Null ?f) =
      console_error ''vd-card attachHls error:'' (Exn ''manifest'') w'" by blast
  then have 1: "w_console (snd (attachHls 0 ''stream.m3u8'' Null ?f)) =
      [Error ''vd-card attachHls error:'' (Exn ''manifest'')]"
    using con' by (simp add: console_error_def)
  have 0: "fst (attachHls 0 ''stream.m3u8'' Null ?f) = None" using t [of ?f] by blast
  have "w_Hls ?n = None" and "v_canPlayType (video_of ?n 0) = NoCanPlayType"
    by (simp_all add: eval_defs)
  with t [of ?n] have "snd (attachHls 0 ''stream.m3u8'' Null ?n) =
      console_warn ''No HLS support in this browser.'' (log_event (AttachHlsCall 0) ?n)" by blast
  note res = this
  have n0: "w_console ?n = []" "w_decoders ?n = []" "v_src (video_of ?n 0) = None"
    by (simp_all add: eval_defs)
  have 2: "w_console (snd (attachHls 0 ''stream.m3u8'' Null ?n)) =
        [Warn ''No HLS support in this browser.'']"
    unfolding res using n0(1) by (simp add: console_warn_def)
  have 3: "w_decoders (snd (attachHls 0 ''stream.m3u8'' Null ?n)) = []"
    unfolding res using n0(2) by simp
  have 4: "v_src (video_of (snd (attachHls 0 ''stream.m3u8'' Null ?n)) 0) = None"
    unfolding res using n0(3) by simp
  from 0 1 2 3 4 show ?thesis by blast
qed

section \<open>The click handler and the load callbacks\<close>

lemma attachHls_result:
  obtains w' where "attachHls pid src h w = (None, w')"
    and "list_all2 same_but_src (w_players w) (w_players w')"
    and "w_trace w' = w_trace w @ [AttachHlsCall pid]"
    and "w_cards w' = w_cards w" and "w_head w' = w_head w"
    and "w_Hls w' = w_Hls w" and "w_native w' = w_native w"
proof -
  obtain r w' where a: "attachHls pid src h w = (r, w')" by (cases "attachHls pid src h w")
  from attachHls_frame [OF a] a that show ?thesis by blast
qed

lemma same_but_src_players:
  assumes "list_all2 same_but_src (w_players w) (w_players w')"
  shows "length (w_players w') = length (w_players w)"
    and "q < length (w_players w) \<Longrightarrow> p_overlay_attached (w_players w' ! q) = p_overlay_attached (w_players w ! q)"
    and "q < length (w_players w) \<Longrightarrow> p_src (w_players w' ! q) = p_src (w_players w ! q)"
    and "q < length (w_players w) \<Longrightarrow> p_startLevel (w_players w' ! q) = p_startLevel (w_players w ! q)"
    and "q < length (w_players w) \<Longrightarrow> p_hlsCdn (w_players w' ! q) = p_hlsCdn (w_players w ! q)"
    and "q < length (w_players w) \<Longrightarrow> v_children (video_of w' q) = v_children (video_of w q)"
    and "q < length (w_players w) \<Longrightarrow> v_canPlayType (video_of w' q) = v_canPlayType (video_of w q)"
    and "q < length (w_players w) \<Longrightarrow> v_src_setter (video_of w' q) = v_src_setter (video_of w q)"
  using assms list_all2_lengthD [OF assms] same_but_src_fields [OF players_frame_nth [OF assms]]
  by (simp_all add: video_of_def)

lemma onPlayClick_direct:
  assumes "\<not> isHlsSource (p_src (w_players w ! pid))"
  shows "onPlayClick pid w =
    (None, play pid (overlay_remove pid (attachDirectFile pid (p_src (w_players w ! pid)) w)))"
  using assms by (simp add: onPlayClick_def Let_def)

lemma onPlayClick_request:
  assumes "isHlsSource (p_src (w_players w ! pid))" and "w_Hls w = None"
  shows "onPlayClick pid w = (None, loadScript (p_hlsCdn (w_players w ! pid)) (ClickLoaded pid) w)"
  using assms by (simp add: onPlayClick_def Let_def)

lemma onPlayClick_hls:
  assumes "isHlsSource (p_src (w_players w ! pid))" and "w_Hls w \<noteq> None"
  shows "onPlayClick pid w =
    (None, play pid (overlay_remove pid
       (snd (attachHls pid (p_src (w_players w ! pid)) (p_startLevel (w_players w ! pid)) w))))"
proof -
  obtain w' where "attachHls pid (p_src (w_players w ! pid)) (p_startLevel (w_players w ! pid)) w = (None, w')"
    by (rule attachHls_result)
  with assms show ?thesis by (auto simp: onPlayClick_def Let_def andThen_def)
qed

lemma clickLoaded_success:
  "clickLoaded pid False w =
    (None, play pid (overlay_remove pid
       (snd (attachHls pid (p_src (w_players w ! pid)) (p_startLevel (w_players w ! pid)) w))))"
proof -
  obtain w' where "attachHls pid (p_src (w_players w ! pid)) (p_startLevel (w_players w ! pid)) w = (None, w')"
    by (rule attachHls_result)
  then show ?thesis by (simp add: clickLoaded_def Let_def andThen_def)
qed

lemma clickLoaded_failure:
  "clickLoaded pid True w =
     andThen (native_fallback pid (p_src (w_players w ! pid))
                (console_warn ''Could not load hls.js from CDN, trying native fallback.'' w))
       (\<lambda>w1. (None, play pid (overlay_remove pid w1)))"
  by (simp add: clickLoaded_def Let_def)









section \<open>Attachment happens once\<close>

text \<open>
  C6. The script attaches a second time to the same video: a placeholder with a poster and
  lazy mode off gets its source at initialisation and keeps its overlay; the click on the
  overlay runs \<open>onPlayClick\<close>, which attaches again. For the direct file \<^verbatim>\<open>movie.mp4\<close> this
  is a second call of \<open>attachDirectFile\<close>; for \<^verbatim>\<open>stream.m3u8\<close> with the decoder present it
  is a second decoder bound to the same video. A lazy placeholder gets two attachments as
  well when its overlay is clicked twice before the decoder script has loaded.
\<close>

theorem eager_poster_click_attaches_twice:
  "w_trace (run [Init None, Click 0] (page None NoCanPlayType
       [placeholder [(''data-src'', ''movie.mp4''), (''data-poster'', ''poster.jpg'')]])) =
     [Built 0, AttachDirectCall 0, Injected 0, AttachDirectCall 0, OverlayRemoved 0, PlayCalled 0]
   \<and> w_trace (run [Init None, Click 0] (page (Some working_hls) NoCanPlayType
       [placeholder [(''data-src'', ''stream.m3u8''), (''data-poster'', ''poster.jpg'')]])) =
     [Built 0, AttachHlsCall 0, Injected 0, AttachHlsCall 0, OverlayRemoved 0, PlayCalled 0]
   \<and> w_decoders (run [Init None, Click 0] (page (Some working_hls) NoCanPlayType
       [placeholder [(''data-src'', ''stream.m3u8''), (''data-poster'', ''poster.jpg'')]])) =
     [[LoadSource ''stream.m3u8'', AttachMedia 0], [LoadSource ''stream.m3u8'', AttachMedia 0]]
   \<and> w_trace (run [Init None, Click 0, Click 0,
                     ScriptLoaded 0 (Some working_hls), ScriptLoaded 1 (Some working_hls)]
       (page None NoCanPlayType
          [placeholder [(''data-src'', ''stream.m3u8''), (''data-lazy'', ''1'')]])) =
     [Built 0, Injected 0,
      ScriptRequested ''https://cdn.jsdelivr.net/npm/hls.js@latest'',
      ScriptRequested ''https://cdn.jsdelivr.net/npm/hls.js@latest'',
      AttachHlsCall 0, OverlayRemoved 0, PlayCalled 0,
      AttachHlsCall 0, OverlayRemoved 0, PlayCalled 0]"
  by (simp add: eval_defs)

text \<open>The click handler of version 1.0.0 has the guard: on a video that has a \<^verbatim>\<open>src\<close> it
  attaches nothing.\<close>

lemma overlay_click_v1_guard:
  assumes "v_src (video_of w pid) \<noteq> None"
  shows "overlay_click_v1 pid w = (None, play pid (overlay_remove pid w))"
  using assms by (auto simp: overlay_click_v1_def Let_def andThen_def video_of_def)

section \<open>The order of construction, attachment and overlay removal\<close>

lemma handler_effectI:
  assumes "length (w_players w') = length (w_players w)"
    and "map s_callback (w_head w') = map s_callback (w_head w) @ cbs"
    and "\<forall>cb \<in> set cbs. callback_pid cb = pid"
    and "w_trace w' = w_trace w @ evs" and "removed_last evs"
    and "\<forall>e \<in> set evs. \<forall>p. attached_pid e = Some p \<longrightarrow> p = pid"
  shows "handler_effect pid w w'"
  unfolding handler_effect_def using assms by blast

lemma native_fallback_frame:
  assumes "native_fallback pid src w = (r, w')"
  shows "length (w_players w') = length (w_players w)" and "w_head w' = w_head w"
    and "w_trace w' = w_trace w \<or> w_trace w' = w_trace w @ [NativeSrcSet pid]"
proof -
  have "length (w_players w') = length (w_players w) \<and> w_head w' = w_head w
    \<and> (w_trace w' = w_trace w \<or> w_trace w' = w_trace w @ [NativeSrcSet pid])"
  proof (cases "v_canPlayType (video_of w pid)")
    case NoCanPlayType
    with assms show ?thesis by (simp add: native_fallback_def)
  next
    case (CanPlayThrows e)
    with assms show ?thesis by (simp add: native_fallback_def)
  next
    case (CanPlayAnswers a)
    show ?thesis
    proof (cases "a = []")
      case True
      with assms CanPlayAnswers show ?thesis by (simp add: native_fallback_def)
    next
      case False
      with assms CanPlayAnswers
      have a: "assign_src pid src (log_event (NativeSrcSet pid) w) = (r, w')"
        by (simp add: native_fallback_def)
      from assign_src_frame [OF a] show ?thesis
        using list_all2_lengthD [of same_but_src "w_players (log_event (NativeSrcSet pid) w)" "w_players w'"]
        by simp
    qed
  qed
  then show "length (w_players w') = length (w_players w)" and "w_head w' = w_head w"
    and "w_trace w' = w_trace w \<or> w_trace w' = w_trace w @ [NativeSrcSet pid]"
    by blast+
qed

lemma onPlayClick_effect: "handler_effect pid w (snd (onPlayClick pid w))"
proof -
  let ?p = "w_players w ! pid"
  consider (direct) "\<not> isHlsSource (p_src ?p)"
    | (request) "isHlsSource (p_src ?p)" "w_Hls w = None"
    | (hls) "isHlsSource (p_src ?p)" "w_Hls w \<noteq> None" by blast
  then show ?thesis
  proof cases
    case direct
    show ?thesis
      by (rule handler_effectI [where cbs = "[]"
            and evs = "[AttachDirectCall pid, OverlayRemoved pid, PlayCalled pid]"])
         (simp_all add: onPlayClick_direct [OF direct] attachDirectFile_frame)
  next
    case request
    show ?thesis
      by (rule handler_effectI [where cbs = "[ClickLoaded pid]"
            and evs = "[ScriptRequested (p_hlsCdn ?p)]"])
         (simp_all add: onPlayClick_request [OF request])
  next
    case hls
    obtain w' where a: "attachHls pid (p_src ?p) (p_startLevel ?p) w = (None, w')"
      and f: "list_all2 same_but_src (w_players w) (w_players w')"
      and t: "w_trace w' = w_trace w @ [AttachHlsCall pid]" and h: "w_head w' = w_head w"
      by (rule attachHls_result)
    show ?thesis
      by (rule handler_effectI [where cbs = "[]"
            and evs = "[AttachHlsCall pid, OverlayRemoved pid, PlayCalled pid]"])
         (simp_all add: onPlayClick_hls [OF hls] a t h same_but_src_players(1) [OF f])
  qed
qed

lemma clickLoaded_effect: "handler_effect pid w (snd (clickLoaded pid err w))"
proof (cases err)
  case False
  then have e: "err = False" by simp
  let ?p = "w_players w ! pid"
  obtain w' where a: "attachHls pid (p_src ?p) (p_startLevel ?p) w = (None, w')"
    and f: "list_all2 same_but_src (w_players w) (w_players w')"
    and t: "w_trace w' = w_trace w @ [AttachHlsCall pid]" and h: "w_head w' = w_head w"
    by (rule attachHls_result)
  show ?thesis
    unfolding e
    by (rule handler_effectI [where cbs = "[]"
          and evs = "[AttachHlsCall pid, OverlayRemoved pid, PlayCalled pid]"])
       (simp_all add: clickLoaded_success a t h same_but_src_players(1) [OF f])
next
  case True
  then have e: "err = True" by simp
  let ?w0 = "console_warn ''Could not load hls.js from CDN, trying native fallback.'' w"
  obtain r w' where n: "native_fallback pid (p_src (w_players w ! pid)) ?w0 = (r, w')"
    by (cases "native_fallback pid (p_src (w_players w ! pid)) ?w0")
  note f = native_fallback_frame [OF n]
  define tail where "tail = (if r = None then [OverlayRemoved pid, PlayCalled pid] else [])"
  have res: "snd (clickLoaded pid True w) = (if r = None then play pid (overlay_remove pid w') else w')"
    by (cases r) (simp_all add: clickLoaded_failure n andThen_def)
  from f(3) show ?thesis
  proof
    assume t: "w_trace w' = w_trace ?w0"
    show ?thesis
      unfolding e
      by (rule handler_effectI [where cbs = "[]" and evs = tail])
         (use f t in \<open>auto simp: res tail_def\<close>)
  next
    assume t: "w_trace w' = w_trace ?w0 @ [NativeSrcSet pid]"
    show ?thesis
      unfolding e
      by (rule handler_effectI [where cbs = "[]" and evs = "NativeSrcSet pid # tail"])
         (use f t in \<open>auto simp: res tail_def\<close>)
  qed
qed

lemma eagerLoaded_effect: "handler_effect pid w (snd (eagerLoaded pid err w))"
proof (cases err)
  case False
  then have e: "err = False" by simp
  let ?p = "w_players w ! pid"
  obtain w' where a: "attachHls pid (p_src ?p) (p_startLevel ?p) w = (None, w')"
    and f: "list_all2 same_but_src (w_players w) (w_players w')"
    and t: "w_trace w' = w_trace w @ [AttachHlsCall pid]" and h: "w_head w' = w_head w"
    by (rule attachHls_result)
  show ?thesis
    unfolding e
    by (rule handler_effectI [where cbs = "[]" and evs = "[AttachHlsCall pid]"])
       (simp_all add: eagerLoaded_def Let_def a t h same_but_src_players(1) [OF f])
next
  case True
  then have e: "err = True" by simp
  obtain r w' where n: "native_fallback pid (p_src (w_players w ! pid)) w = (r, w')"
    by (cases "native_fallback pid (p_src (w_players w ! pid)) w")
  note f = native_fallback_frame [OF n]
  from f(3) show ?thesis
  proof
    assume t: "w_trace w' = w_trace w"
    show ?thesis
      unfolding e
      by (rule handler_effectI [where cbs = "[]" and evs = "[]"])
         (use f t in \<open>simp_all add: eagerLoaded_def Let_def n\<close>)
  next
    assume t: "w_trace w' = w_trace w @ [NativeSrcSet pid]"
    show ?thesis
      unfolding e
      by (rule handler_effectI [where cbs = "[]" and evs = "[NativeSrcSet pid]"])
         (use f t in \<open>simp_all add: eagerLoaded_def Let_def n\<close>)
  qed
qed

lemma handler_effect_refl: "handler_effect pid w w"
  by (rule handler_effectI [where cbs = "[]" and evs = "[]"]) simp_all

lemma handler_effect_from:
  assumes "handler_effect pid w1 w'"
    and "length (w_players w1) = length (w_players w)"
    and "map s_callback (w_head w1) = map s_callback (w_head w)"
    and "w_trace w1 = w_trace w"
  shows "handler_effect pid w w'"
  using assms unfolding handler_effect_def by simp

lemma fired_callbacks:
  "map s_callback (xs[k := (xs ! k)\<lparr>s_fired := True\<rparr>]) = map s_callback xs"
  by (induction xs arbitrary: k) (auto simp: nth_Cons' split: nat.splits)

lemma fire_effect:
  assumes "k < length (w_head w)"
  shows "handler_effect (callback_pid (s_callback (w_head w ! k))) w (snd (fire k err w))"
proof -
  let ?w1 = "w\<lparr>w_head := (w_head w)[k := (w_head w ! k)\<lparr>s_fired := True\<rparr>]\<rparr>"
  have cb: "map s_callback (w_head ?w1) = map s_callback (w_head w)"
    by (simp add: fired_callbacks)
  have "handler_effect (callback_pid (s_callback (w_head w ! k))) ?w1 (snd (fire k err w))"
    by (cases "s_callback (w_head w ! k)")
       (simp_all add: fire_def eagerLoaded_effect clickLoaded_effect)
  then show ?thesis by (rule handler_effect_from) (simp_all add: fired_callbacks)
qed

lemma step_effect:
  assumes "\<forall>options. s \<noteq> Init options"
  obtains pid where "handler_effect pid w (snd (step s w))"
    and "snd (step s w) \<noteq> w \<Longrightarrow> callbacks_ok w \<Longrightarrow> pid < length (w_players w)"
proof (cases s)
  case (Init x)
  with assms show ?thesis by simp
next
  case (Click pid)
  show ?thesis
  proof (rule that [of pid])
    show "handler_effect pid w (snd (step s w))"
      by (simp add: Click onPlayClick_effect handler_effect_refl)
    show "pid < length (w_players w)" if "snd (step s w) \<noteq> w"
      using that by (auto simp: Click clickable_def split: if_splits)
  qed
next
  case (ScriptLoaded k lib)
  let ?w' = "case lib of None \<Rightarrow> w | Some l \<Rightarrow> w\<lparr>w_Hls := Some l\<rparr>"
  have same: "w_head ?w' = w_head w" "w_players ?w' = w_players w" "w_trace ?w' = w_trace w"
    by (cases lib; simp)+
  show ?thesis
  proof (cases "in_flight w k")
    case False
    show ?thesis
      by (rule that [of 0]) (simp_all add: ScriptLoaded False handler_effect_refl)
  next
    case True
    then have k: "k < length (w_head w)" by (simp add: in_flight_def)
    let ?pid = "callback_pid (s_callback (w_head w ! k))"
    show ?thesis
    proof (rule that [of ?pid])
      have "handler_effect ?pid ?w' (snd (fire k False ?w'))"
        using fire_effect [of k ?w' False] k by (simp add: same)
      then have "handler_effect ?pid w (snd (fire k False ?w'))"
        by (rule handler_effect_from) (simp_all add: same)
      then show "handler_effect ?pid w (snd (step s w))"
        using True by (simp add: ScriptLoaded)
      show "?pid < length (w_players w)" if "callbacks_ok w"
        using that k unfolding callbacks_ok_def by (meson nth_mem)
    qed
  qed
next
  case (ScriptFailed k)
  show ?thesis
  proof (cases "in_flight w k")
    case False
    show ?thesis
      by (rule that [of 0]) (simp_all add: ScriptFailed False handler_effect_refl)
  next
    case True
    then have k: "k < length (w_head w)" by (simp add: in_flight_def)
    let ?pid = "callback_pid (s_callback (w_head w ! k))"
    show ?thesis
    proof (rule that [of ?pid])
      show "handler_effect ?pid w (snd (step s w))"
        using True fire_effect [OF k] by (simp add: ScriptFailed)
      show "?pid < length (w_players w)" if "callbacks_ok w"
        using that k unfolding callbacks_ok_def by (meson nth_mem)
    qed
  qed
qed

lemma built_first_snoc:
  "built_first (tr @ [e]) \<longleftrightarrow>
     (case attached_pid e of None \<Rightarrow> True | Some p \<Rightarrow> Built p \<in> set tr) \<and> built_first tr"
  by (simp add: built_first_def split: option.splits)

lemma built_first_append:
  assumes "built_first tr"
    and "\<forall>e \<in> set evs. \<forall>p. attached_pid e = Some p \<longrightarrow> Built p \<in> set tr"
  shows "built_first (tr @ evs)"
  using assms
proof (induction evs arbitrary: tr)
  case Nil
  then show ?case by simp
next
  case (Cons e es)
  have "built_first (tr @ [e])"
    using Cons.prems by (auto simp: built_first_snoc split: option.splits)
  moreover have "\<forall>x \<in> set es. \<forall>p. attached_pid x = Some p \<longrightarrow> Built p \<in> set (tr @ [e])"
    using Cons.prems by simp
  ultimately have "built_first ((tr @ [e]) @ es)" by (rule Cons.IH)
  then show ?case by simp
qed

lemma handler_inv:
  assumes "handler_effect pid w w'" and "pid < length (w_players w)" and "page_inv w"
  shows "page_inv w'"
proof -
  from assms(1) obtain cbs evs where len: "length (w_players w') = length (w_players w)"
    and cb: "map s_callback (w_head w') = map s_callback (w_head w) @ cbs"
    and cbs: "\<forall>cb \<in> set cbs. callback_pid cb = pid"
    and tr: "w_trace w' = w_trace w @ evs"
    and att: "\<forall>e \<in> set evs. \<forall>p. attached_pid e = Some p \<longrightarrow> p = pid"
    unfolding handler_effect_def by blast
  from assms(3) have ok: "callbacks_ok w" and bf: "built_first (w_trace w)" by (simp_all add: page_inv_def)
  have built: "Built pid \<in> set (w_trace w)" using ok assms(2) by (simp add: callbacks_ok_def)
  have "callback_pid c < length (w_players w')" if "c \<in> set (map s_callback (w_head w'))" for c
  proof -
    from that cb have "c \<in> set (map s_callback (w_head w)) \<or> c \<in> set cbs" by auto
    then show ?thesis
      using ok cbs assms(2) len by (auto simp: callbacks_ok_def)
  qed
  then have "\<forall>s \<in> set (w_head w'). callback_pid (s_callback s) < length (w_players w')"
    by simp
  moreover have "\<forall>p < length (w_players w'). Built p \<in> set (w_trace w')"
    using ok len tr by (simp add: callbacks_ok_def)
  moreover have "built_first (w_trace w')"
    unfolding tr using bf att built by (intro built_first_append) auto
  ultimately show ?thesis by (simp add: page_inv_def callbacks_ok_def)
qed

lemma step_inv:
  assumes "page_inv w" and "\<forall>options. s \<noteq> Init options"
  shows "page_inv (snd (step s w))"
proof (cases "snd (step s w) = w")
  case True
  with assms show ?thesis by simp
next
  case False
  from assms(2) obtain pid where h: "handler_effect pid w (snd (step s w))"
    and "snd (step s w) \<noteq> w \<Longrightarrow> callbacks_ok w \<Longrightarrow> pid < length (w_players w)"
    by (rule step_effect [where w = w]) blast
  with False assms(1) have "pid < length (w_players w)" by (simp add: page_inv_def)
  from h this assms(1) show ?thesis by (rule handler_inv)
qed

lemma eager_attach_effect:
  "handler_effect pid w (snd (eager_attach opts pid src h poster w))"
proof -
  define tail where "tail = (if poster = [] then [OverlayRemoved pid] else [])"
  consider (direct) "\<not> isHlsSource src"
    | (request) "isHlsSource src" "w_Hls w = None"
    | (hls) "isHlsSource src" "w_Hls w \<noteq> None" by blast
  then show ?thesis
  proof cases
    case direct
    show ?thesis
      by (rule handler_effectI [where cbs = "[]" and evs = "AttachDirectCall pid # tail"])
         (use direct in \<open>auto simp: eager_attach_def andThen_def attachDirectFile_frame tail_def\<close>)
  next
    case request
    show ?thesis
      by (rule handler_effectI [where cbs = "[EagerLoaded pid]"
            and evs = "ScriptRequested (hlsCdn opts) # tail"])
         (use request in \<open>auto simp: eager_attach_def andThen_def tail_def\<close>)
  next
    case hls
    obtain w' where a: "attachHls pid src h w = (None, w')"
      and f: "list_all2 same_but_src (w_players w) (w_players w')"
      and t: "w_trace w' = w_trace w @ [AttachHlsCall pid]" and hd: "w_head w' = w_head w"
      by (rule attachHls_result)
    show ?thesis
      by (rule handler_effectI [where cbs = "[]" and evs = "AttachHlsCall pid # tail"])
         (use hls same_but_src_players(1) [OF f] in
           \<open>auto simp: eager_attach_def andThen_def a t hd tail_def\<close>)
  qed
qed

lemma removed_last_snoc:
  assumes "removed_last evs" and "attached_pid e = None"
  shows "removed_last (evs @ [e])"
  using assms
proof (induction evs)
  case Nil
  then show ?case by (cases e) simp_all
next
  case (Cons x xs)
  then show ?case by (cases x) simp_all
qed

lemma initOne_effect:
  obtains (skip) "initOne opts i w = (None, w)"
  | (built) w1 w2 where
      "w1 = log_event (Built (length (w_players w)))
              (w\<lparr>w_players := w_players w @
                 [build_player opts (w_cards w ! i) (the (getAttribute (w_cards w ! i) ''data-src''))
                    (w_native w)]\<rparr>)"
      and "handler_effect (length (w_players w)) w1 w2"
      and "snd (initOne opts i w) =
             inject i (length (w_players w)) (card_title (w_cards w ! i)) (card_desc (w_cards w ! i)) w2"
proof (cases "length (w_cards w) \<le> i \<or> getAttribute (w_cards w ! i) ''data-src'' = None
           \<or> getAttribute (w_cards w ! i) ''data-src'' = Some []")
  case True
  then show ?thesis using skip initOne_skip by blast
next
  case False
  then obtain src where i: "i < length (w_cards w)"
    and s: "getAttribute (w_cards w ! i) ''data-src'' = Some src" and ne: "src \<noteq> []"
    by (cases "getAttribute (w_cards w ! i) ''data-src''") auto
  let ?pid = "length (w_players w)"
  define w1 where "w1 = log_event (Built ?pid)
              (w\<lparr>w_players := w_players w @ [build_player opts (w_cards w ! i) src (w_native w)]\<rparr>)"
  have w1: "w1 = log_event (Built ?pid)
              (w\<lparr>w_players := w_players w @
                 [build_player opts (w_cards w ! i) (the (getAttribute (w_cards w ! i) ''data-src''))
                    (w_native w)]\<rparr>)"
    by (simp add: w1_def s)
  show ?thesis
  proof (cases "card_lazy opts (w_cards w ! i)")
    case True
    show ?thesis
      by (rule built [OF w1 handler_effect_refl])
         (simp add: initOne_lazy [OF i s ne True] w1_def)
  next
    case False
    show ?thesis
      by (rule built [OF w1 eager_attach_effect])
         (simp add: initOne_eager [OF i s ne False] w1_def)
  qed
qed

lemma initOne_inv:
  assumes "page_inv w"
  shows "page_inv (snd (initOne opts i w))"
proof (cases opts i w rule: initOne_effect)
  case skip
  with assms show ?thesis by simp
next
  case (built w1 w2)
  let ?pid = "length (w_players w)"
  from assms have ok: "callbacks_ok w" and bf: "built_first (w_trace w)"
    by (simp_all add: page_inv_def)
  have "callbacks_ok w1"
    using ok by (auto simp: built(1) callbacks_ok_def less_Suc_eq)
  moreover have "built_first (w_trace w1)"
    using bf by (simp add: built(1) built_first_snoc)
  ultimately have "page_inv w1" by (simp add: page_inv_def)
  moreover have "?pid < length (w_players w1)" by (simp add: built(1))
  ultimately have i2: "page_inv w2" using built(2) handler_inv by blast
  then have "callbacks_ok (inject i ?pid (card_title (w_cards w ! i)) (card_desc (w_cards w ! i)) w2)"
    by (simp add: page_inv_def callbacks_ok_def)
  moreover have "built_first (w_trace (inject i ?pid (card_title (w_cards w ! i)) (card_desc (w_cards w ! i)) w2))"
    using i2 by (simp add: page_inv_def built_first_snoc)
  ultimately show ?thesis by (simp add: built(3) page_inv_def)
qed

lemma forEach_inv:
  "page_inv w \<Longrightarrow> page_inv (snd (forEach_initOne opts is w))"
proof (induction "is" arbitrary: w)
  case Nil
  then show ?case by simp
next
  case (Cons j js)
  from Cons.IH [OF initOne_inv [OF Cons.prems]] show ?case
    by (simp add: forEach_step del: forEach_initOne.simps(2))
qed

lemma initAll_forEach:
  "initAll options w =
     forEach_initOne (assign_options options)
       (filter (\<lambda>j. selected (w_cards w ! j)) [0..<length (w_cards w)]) w"
  by (cases "filter (\<lambda>j. selected (w_cards w ! j)) [0..<length (w_cards w)]")
     (simp_all add: initAll_def Let_def)

lemma step_inv_all:
  assumes "page_inv w"
  shows "page_inv (snd (step s w))"
proof (cases "\<forall>options. s \<noteq> Init options")
  case True
  with assms show ?thesis by (rule step_inv)
next
  case False
  then obtain options where "s = Init options" by blast
  with assms show ?thesis by (simp add: initAll_forEach forEach_inv)
qed

lemma run_inv: "page_inv w \<Longrightarrow> page_inv (run ss w)"
  by (induction ss arbitrary: w) (simp_all add: step_inv_all del: step.simps)

lemma page_inv_page: "page_inv (page lib native cards)"
  by (simp add: page_inv_def callbacks_ok_def built_first_def page_def)

lemma initOne_events:
  "\<exists>evs. w_trace (snd (initOne opts i w)) = w_trace w @ evs \<and> removed_last evs
       \<and> (evs = [] \<or> (hd evs = Built (length (w_players w))
                        \<and> last evs = Injected (length (w_players w))))"
proof (cases opts i w rule: initOne_effect)
  case skip
  then show ?thesis by simp
next
  case (built w1 w2)
  let ?pid = "length (w_players w)"
  from built(2) obtain evs where t: "w_trace w2 = w_trace w1 @ evs" and r: "removed_last evs"
    unfolding handler_effect_def by blast
  have tr: "w_trace (snd (initOne opts i w)) = w_trace w @ (Built ?pid # evs @ [Injected ?pid])"
    by (simp add: built(3) t built(1))
  have "removed_last (evs @ [Injected ?pid])" using r by (rule removed_last_snoc) simp
  then have "removed_last (Built ?pid # evs @ [Injected ?pid])" by simp
  with tr show ?thesis by (intro exI [of _ "Built ?pid # evs @ [Injected ?pid]"]) simp
qed

lemma step_events:
  assumes "\<forall>options. s \<noteq> Init options"
  shows "\<exists>evs. w_trace (snd (step s w)) = w_trace w @ evs \<and> removed_last evs"
proof -
  from assms obtain pid where "handler_effect pid w (snd (step s w))"
    by (rule step_effect [where w = w]) blast
  then show ?thesis unfolding handler_effect_def by blast
qed

text \<open>
  C9, as amended. On every run of a page, the wrapper, video and overlay of a player are
  built before any attachment to its video, in the click path and in the load callbacks as
  well. Within one execution of \<open>initOne\<close>, of the click handler or of a load callback, no
  attachment to a video follows the removal of its overlay; \<open>initOne\<close> builds the elements
  first and replaces the content of the card last, after an eager attachment. Across
  executions the overlay can go first: with lazy mode off and no poster, \<open>initOne\<close> removes
  the overlay at once, and for an adaptive source on a page without \<^verbatim>\<open>window.Hls\<close> the
  attachment comes later, in the load callback.
\<close>

theorem build_attach_remove_order:
  "built_first (w_trace (run ss (page lib native cards)))
   \<and> (\<exists>evs. w_trace (snd (initOne opts i w)) = w_trace w @ evs \<and> removed_last evs
         \<and> (evs = [] \<or> (hd evs = Built (length (w_players w))
                          \<and> last evs = Injected (length (w_players w)))))
   \<and> ((\<forall>options. s \<noteq> Init options) \<longrightarrow>
        (\<exists>evs. w_trace (snd (step s w)) = w_trace w @ evs \<and> removed_last evs))"
proof -
  have "page_inv (run ss (page lib native cards))"
    by (rule run_inv) (rule page_inv_page)
  then have "built_first (w_trace (run ss (page lib native cards)))"
    by (simp add: page_inv_def)
  with initOne_events [of opts i w] step_events [of s w] show ?thesis by blast
qed

text \<open>On the run in which the overlay goes before the attachment, the elements were still
  built first; and the click on a lazy placeholder for \<^verbatim>\<open>movie.mp4\<close> attaches before it
  removes the overlay.\<close>

theorem build_attach_remove_order_witness:
  "built_first (w_trace (run [Init None, ScriptLoaded 0 (Some working_hls)]
       (page None NoCanPlayType [placeholder [(''data-src'', ''stream.m3u8'')]])))
   \<and> (\<exists>evs. w_trace (snd (step (Click 0) (snd (initAll None
          (page None NoCanPlayType [placeholder [(''data-src'', ''movie.mp4''), (''data-lazy'', ''1'')]])))))
        = w_trace (snd (initAll None
          (page None NoCanPlayType [placeholder [(''data-src'', ''movie.mp4''), (''data-lazy'', ''1'')]]))) @ evs
        \<and> removed_last evs)"
proof -
  have "\<forall>options. Click 0 \<noteq> Init options" by simp
  with build_attach_remove_order
    [of "[Init None, ScriptLoaded 0 (Some working_hls)]" None NoCanPlayType
        "[placeholder [(''data-src'', ''stream.m3u8'')]]" DEFAULTS 0
        "snd (initAll None
          (page None NoCanPlayType [placeholder [(''data-src'', ''movie.mp4''), (''data-lazy'', ''1'')]]))"
        "Click 0"]
  show ?thesis by blast
qed

text \<open>
  C9 as stated fails. The placeholder \<^verbatim>\<open>stream.m3u8\<close> without poster, lazy mode off, on a
  page without \<^verbatim>\<open>window.Hls\<close>: initialisation requests the script and removes the overlay,
  and \<open>attachHls\<close> runs after the script has loaded, so the overlay is removed before the
  attachment. The placeholder \<^verbatim>\<open>movie.mp4\<close>: \<open>attachDirectFile\<close> runs before the content of
  the card is replaced by the elements built.
\<close>

theorem overlay_removed_first_counterexample:
  "w_trace (run [Init None, ScriptLoaded 0 (Some working_hls)]
       (page None NoCanPlayType [placeholder [(''data-src'', ''stream.m3u8'')]])) =
     [Built 0, ScriptRequested ''https://cdn.jsdelivr.net/npm/hls.js@latest'', OverlayRemoved 0,
      Injected 0, AttachHlsCall 0]
   \<and> \<not> removed_last (w_trace (run [Init None, ScriptLoaded 0 (Some working_hls)]
       (page None NoCanPlayType [placeholder [(''data-src'', ''stream.m3u8'')]])))
   \<and> w_trace (run [Init None]
       (page None NoCanPlayType [placeholder [(''data-src'', ''movie.mp4'')]])) =
     [Built 0, AttachDirectCall 0, OverlayRemoved 0, Injected 0]"
  by (simp add: eval_defs)

end
